theory Spec2Isabelle
  imports Main "HOL-Library.Sublist"
begin

section \<open>Strings and characters\<close>

text \<open>
  A Python \<open>str\<close> is a sequence of code points. The model uses \<open>string\<close>, so a character
  is one of the code points U+0000 .. U+00FF, and \<open>length\<close> is Python's \<open>len\<close>. The character
  classes below are those of the standard library on that range.
\<close>

definition code :: "char \<Rightarrow> nat" where
  "code c = of_char c"

text \<open>What \<open>str.isspace\<close>, \<open>str.strip()\<close> and the pattern \<open>\s\<close> take for white space.\<close>

definition is_space :: "char \<Rightarrow> bool" where
  "is_space c = (code c \<in> {9, 10, 11, 12, 13, 28, 29, 30, 31, 32, 133, 160})"

text \<open>The pattern \<open>\d\<close>: the decimal digits.\<close>

definition is_digit :: "char \<Rightarrow> bool" where
  "is_digit c = (48 \<le> code c \<and> code c \<le> 57)"

text \<open>The pattern \<open>\w\<close>: alphanumeric characters and the underscore.\<close>

definition is_word :: "char \<Rightarrow> bool" where
  "is_word c = (let n = code c in
     (48 \<le> n \<and> n \<le> 57) \<or> (65 \<le> n \<and> n \<le> 90) \<or> n = 95 \<or> (97 \<le> n \<and> n \<le> 122) \<or>
     n = 170 \<or> n = 178 \<or> n = 179 \<or> n = 181 \<or> n = 185 \<or> n = 186 \<or>
     (188 \<le> n \<and> n \<le> 190) \<or> (192 \<le> n \<and> n \<le> 214) \<or> (216 \<le> n \<and> n \<le> 246) \<or>
     248 \<le> n)"

text \<open>\<open>str.lower\<close>, one character at a time.\<close>

definition lower_char :: "char \<Rightarrow> char" where
  "lower_char c = (let n = code c in
     if (65 \<le> n \<and> n \<le> 90) \<or> (192 \<le> n \<and> n \<le> 214) \<or> (216 \<le> n \<and> n \<le> 222)
     then char_of (n + 32) else c)"

definition lower :: "string \<Rightarrow> string" where
  "lower s = map lower_char s"

text \<open>\<open>s.lstrip('.')\<close> removes the leading dots.\<close>

definition lstrip_dots :: "string \<Rightarrow> string" where
  "lstrip_dots s = dropWhile (\<lambda>c. c = CHR ''.'') s"

text \<open>\<open>s.strip()\<close> removes white space at both ends.\<close>

definition strip :: "string \<Rightarrow> string" where
  "strip s = rev (dropWhile is_space (rev (dropWhile is_space s)))"

text \<open>\<open>sep.join(parts)\<close>.\<close>

fun join :: "string \<Rightarrow> string list \<Rightarrow> string" where
  "join sep [] = []"
| "join sep [p] = p"
| "join sep (p # q # ps) = p @ sep @ join sep (q # ps)"

text \<open>
  \<open>s.replace(old, new)\<close>: the occurrences of \<open>old\<close> are replaced from the left and do not
  overlap. For an empty \<open>old\<close> Python puts \<open>new\<close> before every character and at the end.
\<close>

function replace :: "string \<Rightarrow> string \<Rightarrow> string \<Rightarrow> string" where
  "replace old new s =
     (if old = [] then new @ concat (map (\<lambda>c. c # new) s)
      else if s = [] then []
      else if prefix old s then new @ replace old new (drop (length old) s)
      else hd s # replace old new (tl s))"
  by pat_completeness auto
termination
  by (relation "measure (\<lambda>(old, new, s). length s)") auto

declare replace.simps [simp del]

text \<open>\<open>str(n)\<close> for an integer: decimal digits, with a minus sign below zero.\<close>

definition digit_char :: "nat \<Rightarrow> char" where
  "digit_char d = char_of (48 + d)"

fun str_nat :: "nat \<Rightarrow> string" where
  "str_nat n = (if n < 10 then [digit_char n] else str_nat (n div 10) @ [digit_char (n mod 10)])"

declare str_nat.simps [simp del]

definition str_int :: "int \<Rightarrow> string" where
  "str_int i = (if i < 0 then CHR ''-'' # str_nat (nat (- i)) else str_nat (nat i))"

section \<open>Regular expressions\<close>

text \<open>
  The patterns of the chunker are built from literal characters, character classes, greedy
  repetition of a class, sequence, alternation, one-character look-behind and look-ahead,
  and the word boundary \<open>\b\<close>.
\<close>

datatype charclass =
    Space                \<comment> \<open>\<open>\s\<close>\<close>
  | Digit                \<comment> \<open>\<open>\d\<close>\<close>
  | OneOf string         \<comment> \<open>\<open>[...]\<close>, the characters listed\<close>
  | Range char char      \<comment> \<open>\<open>[a-b]\<close>\<close>

fun in_class :: "charclass \<Rightarrow> char \<Rightarrow> bool" where
  "in_class Space c = is_space c"
| "in_class Digit c = is_digit c"
| "in_class (OneOf cs) c = (c \<in> set cs)"
| "in_class (Range a b) c = (code a \<le> code c \<and> code c \<le> code b)"

datatype regex =
    Lit char                   \<comment> \<open>a literal character\<close>
  | Cls charclass              \<comment> \<open>one character of a class\<close>
  | Star charclass             \<comment> \<open>\<open>c*\<close>, greedy\<close>
  | Plus charclass             \<comment> \<open>\<open>c+\<close>, greedy\<close>
  | Seq regex regex
  | Alt regex regex            \<comment> \<open>\<open>a|b\<close>, the left branch first\<close>
  | LookBehind charclass       \<comment> \<open>\<open>(?<=c)\<close>\<close>
  | LookAhead charclass        \<comment> \<open>\<open>(?=c)\<close>\<close>
  | WordBoundary               \<comment> \<open>\<open>\b\<close>\<close>

text \<open>The literal string \<open>cs\<close> as a pattern followed by \<open>r\<close>.\<close>

fun lits :: "string \<Rightarrow> regex \<Rightarrow> regex" where
  "lits [] r = r"
| "lits (c # cs) r = Seq (Lit c) (lits cs r)"

text \<open>
  The position in the text is the character before it (if any) and the text from it on.
  After \<open>n\<close> characters of \<open>s\<close> the character before is \<open>s ! (n - 1)\<close>.
\<close>

definition prev_after :: "char option \<Rightarrow> string \<Rightarrow> nat \<Rightarrow> char option" where
  "prev_after p s n = (if n = 0 then p else if n \<le> length s then Some (s ! (n - 1)) else None)"

definition word_at :: "char option \<Rightarrow> bool" where
  "word_at p = (case p of None \<Rightarrow> False | Some c \<Rightarrow> is_word c)"

definition first_char :: "string \<Rightarrow> char option" where
  "first_char s = (case s of [] \<Rightarrow> None | c # _ \<Rightarrow> Some c)"

text \<open>
  \<open>matches r p s\<close> lists the lengths of the matches of \<open>r\<close> that start at the position
  \<open>(p, s)\<close>, in the order in which the backtracking matcher of \<open>re\<close> tries them: the longer
  repetition first, the left alternative first. The match that \<open>re\<close> reports is the first.
\<close>

fun matches :: "regex \<Rightarrow> char option \<Rightarrow> string \<Rightarrow> nat list" where
  "matches (Lit c) p s = (case s of [] \<Rightarrow> [] | x # _ \<Rightarrow> if x = c then [1] else [])"
| "matches (Cls k) p s = (case s of [] \<Rightarrow> [] | x # _ \<Rightarrow> if in_class k x then [1] else [])"
| "matches (Star k) p s = rev [0 ..< Suc (length (takeWhile (in_class k) s))]"
| "matches (Plus k) p s = rev [1 ..< Suc (length (takeWhile (in_class k) s))]"
| "matches (Seq a b) p s =
     concat (map (\<lambda>n. map (\<lambda>m. n + m) (matches b (prev_after p s n) (drop n s))) (matches a p s))"
| "matches (Alt a b) p s = matches a p s @ matches b p s"
| "matches (LookBehind k) p s =
     (case p of None \<Rightarrow> [] | Some c \<Rightarrow> if in_class k c then [0] else [])"
| "matches (LookAhead k) p s =
     (case s of [] \<Rightarrow> [] | x # _ \<Rightarrow> if in_class k x then [0] else [])"
| "matches WordBoundary p s = (if word_at p \<noteq> word_at (first_char s) then [0] else [])"

text \<open>
  The match of \<open>r\<close> at a position, if any. None of the chunker's patterns matches the empty
  string (see \<open>paragraph_break_nonempty\<close> and the lemmas after it), and an empty match counts
  as none here.
\<close>

definition match_at :: "regex \<Rightarrow> char option \<Rightarrow> string \<Rightarrow> nat option" where
  "match_at r p s =
     (case matches r p s of [] \<Rightarrow> None | n # _ \<Rightarrow> if 0 < n \<and> n \<le> length s then Some n else None)"

text \<open>
  \<open>re.split(r, s)\<close>: the text between the matches, found from the left, each search
  resuming where the last match ended. \<open>acc\<close> is the piece being read, reversed.
\<close>

function re_split_from :: "regex \<Rightarrow> char option \<Rightarrow> string \<Rightarrow> string \<Rightarrow> string list" where
  "re_split_from r p s acc =
     (if s = [] then [rev acc]
      else case match_at r p s of
             Some n \<Rightarrow> rev acc # re_split_from r (prev_after p s n) (drop n s) []
           | None \<Rightarrow> re_split_from r (Some (hd s)) (tl s) (hd s # acc))"
  by pat_completeness auto
termination
  by (relation "measure (\<lambda>(r, p, s, acc). length s)")
     (auto simp: match_at_def split: list.splits if_splits)

declare re_split_from.simps [simp del]

definition re_split :: "regex \<Rightarrow> string \<Rightarrow> string list" where
  "re_split r s = re_split_from r None s []"

text \<open>
  \<open>re.sub(r, repl, s)\<close>: every match, found from the left, is replaced by \<open>repl\<close> of the
  matched text.
\<close>

function re_sub_from :: "regex \<Rightarrow> (string \<Rightarrow> string) \<Rightarrow> char option \<Rightarrow> string \<Rightarrow> string" where
  "re_sub_from r repl p s =
     (if s = [] then []
      else case match_at r p s of
             Some n \<Rightarrow> repl (take n s) @ re_sub_from r repl (prev_after p s n) (drop n s)
           | None \<Rightarrow> hd s # re_sub_from r repl (Some (hd s)) (tl s))"
  by pat_completeness auto
termination
  by (relation "measure (\<lambda>(r, repl, p, s). length s)")
     (auto simp: match_at_def split: list.splits if_splits)

declare re_sub_from.simps [simp del]

definition re_sub :: "regex \<Rightarrow> (string \<Rightarrow> string) \<Rightarrow> string \<Rightarrow> string" where
  "re_sub r repl s = re_sub_from r repl None s"

section \<open>The data model\<close>

text \<open>
  The values found in the open \<open>metadata\<close> dictionary of a parsed section: strings, integers,
  booleans, lists and \<open>None\<close>.
\<close>

datatype meta_value =
    VStr string
  | VInt int
  | VBool bool
  | VList "meta_value list"
  | VNone

record ParsedSection =
  content :: string
  page_number :: "int option"
  section_title :: "string option"
  doc_type :: string
  metadata :: "string \<rightharpoonup> meta_value"

text \<open>
  The metadata of a chunk is a dictionary with seven fixed keys, written as a record with a
  field for each key.
\<close>

record ChunkMetadata =
  page_number :: "int option"
  section_title :: "string option"
  chunk_index :: int
  char_count :: int
  token_estimate :: int
  doc_type :: string
  is_table :: bool

record Chunk =
  chunk_id :: string
  content :: string
  document_id :: string
  document_name :: string
  metadata :: ChunkMetadata

text \<open>
  The engine keeps the two sizes in characters; \<open>__init__\<close> computes them from sizes in
  tokens. They are Python integers, and nothing stops them from being negative.
\<close>

record ChunkingEngine =
  chunk_size_chars :: int
  chunk_overlap_chars :: int

definition ChunkingEngine_init :: "int \<Rightarrow> int \<Rightarrow> ChunkingEngine" where
  "ChunkingEngine_init chunk_size chunk_overlap =
     \<lparr>chunk_size_chars = chunk_size * 4, chunk_overlap_chars = chunk_overlap * 4\<rparr>"

section \<open>Splitting\<close>

definition newline :: char where
  "newline = CHR 0x0A"

text \<open>The pattern \<open>(?<=[.!?])\s+(?=[A-Z])|(?<=[.!?])\s*\n\<close>.\<close>

definition SENTENCE_SPLIT_PATTERN :: regex where
  "SENTENCE_SPLIT_PATTERN =
     Alt (Seq (LookBehind (OneOf ''.!?'')) (Seq (Plus Space) (LookAhead (Range CHR ''A'' CHR ''Z''))))
         (Seq (LookBehind (OneOf ''.!?'')) (Seq (Star Space) (Lit newline)))"

text \<open>
  The abbreviations are a Python set, and the order in which a loop visits a set is not
  fixed by the language. They are listed here in the order of the source text; the functions
  that loop over them take the order as a parameter.
\<close>

definition ABBREVIATIONS :: "string list" where
  "ABBREVIATIONS =
     [''Mr'', ''Mrs'', ''Ms'', ''Dr'', ''Prof'', ''Sr'', ''Jr'', ''vs'', ''etc'', ''Inc'', ''Ltd'', ''Co'']"

text \<open>The pattern \<open>\n\s*\n\<close> of \<open>_split_at_paragraphs\<close>.\<close>

definition PARAGRAPH_BREAK :: regex where
  "PARAGRAPH_BREAK = Seq (Lit newline) (Seq (Star Space) (Lit newline))"

definition split_at_paragraphs :: "string \<Rightarrow> string list" where
  "split_at_paragraphs text =
     (let paragraphs = re_split PARAGRAPH_BREAK text
      in map strip (filter (\<lambda>p. strip p \<noteq> []) paragraphs))"

text \<open>The pattern \<open>\b{abbrev}\.\<close> and the text that replaces its matches.\<close>

definition abbrev_pattern :: "string \<Rightarrow> regex" where
  "abbrev_pattern abbrev = Seq WordBoundary (lits abbrev (Lit CHR ''.''))"

definition DOT :: string where
  "DOT = ''<<<DOT>>>''"

definition protect_abbreviation :: "string \<Rightarrow> string \<Rightarrow> string" where
  "protect_abbreviation abbrev protected_text =
     re_sub (abbrev_pattern abbrev) (\<lambda>_. abbrev @ DOT) protected_text"

text \<open>The loop over the abbreviations, in the order \<open>abbrevs\<close>.\<close>

definition protect_abbreviations :: "string list \<Rightarrow> string \<Rightarrow> string" where
  "protect_abbreviations abbrevs text = fold protect_abbreviation abbrevs text"

text \<open>
  The pattern \<open>(\d)\.(\d)\<close> and the replacement \<open>\1<<<DOT>>>\2\<close>: the two groups are the
  first and the last character of the match.
\<close>

definition DECIMAL_PATTERN :: regex where
  "DECIMAL_PATTERN = Seq (Cls Digit) (Seq (Lit CHR ''.'') (Cls Digit))"

definition protect_decimals :: "string \<Rightarrow> string" where
  "protect_decimals text = re_sub DECIMAL_PATTERN (\<lambda>m. hd m # DOT @ [last m]) text"

definition split_at_sentences_in :: "string list \<Rightarrow> string \<Rightarrow> string list" where
  "split_at_sentences_in abbrevs text =
     (let protected_text = protect_abbreviations abbrevs text;
          protected_text = protect_decimals protected_text;
          sentences = re_split SENTENCE_SPLIT_PATTERN protected_text;
          sentences = map (\<lambda>s. strip (replace DOT ''.'' s)) sentences
      in filter (\<lambda>s. s \<noteq> []) sentences)"

definition split_at_sentences :: "string \<Rightarrow> string list" where
  "split_at_sentences text = split_at_sentences_in ABBREVIATIONS text"

section \<open>Combining parts into chunks\<close>

definition SEP :: string where
  "SEP = [newline, newline]"

text \<open>
  \<open>part[-remaining:]\<close> for \<open>remaining > 0\<close>: the last \<open>remaining\<close> characters, the whole
  part when it has no more than that.
\<close>

definition tail_slice :: "string \<Rightarrow> int \<Rightarrow> string" where
  "tail_slice part remaining = drop (length part - nat remaining) part"

text \<open>
  The loop of \<open>_get_overlap_parts\<close> over \<open>reversed(parts)\<close>; its state is
  \<open>(overlap_parts, overlap_length)\<close>. The second branch is the one that ends in \<open>break\<close>.
\<close>

fun overlap_loop :: "ChunkingEngine \<Rightarrow> string list \<Rightarrow> string list \<times> int \<Rightarrow> string list \<times> int" where
  "overlap_loop e [] (overlap_parts, overlap_length) = (overlap_parts, overlap_length)"
| "overlap_loop e (part # rest) (overlap_parts, overlap_length) =
     (if overlap_length + int (length part) \<le> chunk_overlap_chars e
      then overlap_loop e rest (part # overlap_parts, overlap_length + int (length part) + 2)
      else
        (let remaining = chunk_overlap_chars e - overlap_length
         in if remaining > 0 \<and> length part > 0
            then (tail_slice part remaining # overlap_parts, overlap_length + remaining)
            else (overlap_parts, overlap_length)))"

definition get_overlap_parts :: "ChunkingEngine \<Rightarrow> string list \<Rightarrow> string list \<times> int" where
  "get_overlap_parts e parts = overlap_loop e (rev parts) ([], 0)"

text \<open>
  The loop of \<open>_combine_with_overlap\<close>; its state is
  \<open>(chunks, current_chunk_parts, current_length)\<close>.
\<close>

fun combine_loop ::
  "ChunkingEngine \<Rightarrow> string list \<Rightarrow> string list \<times> string list \<times> int \<Rightarrow>
   string list \<times> string list \<times> int" where
  "combine_loop e [] st = st"
| "combine_loop e (part # rest) (chunks, current_chunk_parts, current_length) =
     (let part_length = int (length part);
          separator_length = (if current_chunk_parts \<noteq> [] then 2 else 0);
          (chunks, current_chunk_parts, current_length) =
            (if current_length + separator_length + part_length > chunk_size_chars e
             then
               (if current_chunk_parts \<noteq> []
                then (let (overlap_parts, overlap_length) = get_overlap_parts e current_chunk_parts
                      in (chunks @ [join SEP current_chunk_parts], overlap_parts, overlap_length))
                else (chunks, current_chunk_parts, current_length))
             else (chunks, current_chunk_parts, current_length))
      in combine_loop e rest
           (chunks, current_chunk_parts @ [part], current_length + separator_length + part_length))"

definition combine_with_overlap :: "ChunkingEngine \<Rightarrow> string list \<Rightarrow> string list" where
  "combine_with_overlap e parts =
     (if parts = [] then []
      else
        (let (chunks, current_chunk_parts, current_length) = combine_loop e parts ([], [], 0)
         in if current_chunk_parts \<noteq> [] then chunks @ [join SEP current_chunk_parts]
            else chunks))"

section \<open>Chunking a section\<close>

text \<open>Step 2 of \<open>_chunk_section\<close>: the paragraphs that are too long are split at sentences.\<close>

fun process_paragraphs :: "ChunkingEngine \<Rightarrow> string list \<Rightarrow> string list \<Rightarrow> string list" where
  "process_paragraphs e [] processed_parts = processed_parts"
| "process_paragraphs e (para # rest) processed_parts =
     (if int (length para) \<le> chunk_size_chars e
      then process_paragraphs e rest (processed_parts @ [para])
      else process_paragraphs e rest (processed_parts @ split_at_sentences para))"

definition chunk_section :: "ChunkingEngine \<Rightarrow> ParsedSection \<Rightarrow> string list" where
  "chunk_section e section =
     (let content = ParsedSection.content section
      in if int (length content) \<le> chunk_size_chars e then [content]
         else
           (let paragraphs = split_at_paragraphs content;
                processed_parts = process_paragraphs e paragraphs []
            in combine_with_overlap e processed_parts))"

text \<open>
  \<open>_add_context_prefix\<close> builds the prefix and returns it, a line break and the chunk text.
  A page number that is \<open>None\<close> or 0 and a title that is \<open>None\<close> or empty are false in
  Python and add nothing to the prefix.
\<close>

definition context_prefix :: "ParsedSection \<Rightarrow> string \<Rightarrow> string" where
  "context_prefix section doc_name =
     (let prefix_parts = [''[Document: '' @ doc_name @ '']''];
          prefix_parts =
            (case ParsedSection.page_number section of
               None \<Rightarrow> prefix_parts
             | Some n \<Rightarrow> if n \<noteq> 0 then prefix_parts @ [''[Page '' @ str_int n @ '']'']
                         else prefix_parts);
          prefix_parts =
            (case ParsedSection.section_title section of
               None \<Rightarrow> prefix_parts
             | Some t \<Rightarrow> if t \<noteq> [] then prefix_parts @ [''[Section: '' @ t @ '']'']
                         else prefix_parts)
      in join '' '' prefix_parts)"

definition add_context_prefix :: "string \<Rightarrow> ParsedSection \<Rightarrow> string \<Rightarrow> string" where
  "add_context_prefix chunk_text section doc_name =
     context_prefix section doc_name @ [newline] @ chunk_text"

section \<open>Chunking a document\<close>

text \<open>\<open>section.metadata.get("type") == "table"\<close>.\<close>

definition section_is_table :: "ParsedSection \<Rightarrow> bool" where
  "section_is_table section = (ParsedSection.metadata section ''type'' = Some (VStr ''table''))"

text \<open>
  \<open>uuid.uuid4()\<close> is not a function of the program's data. The model takes the identifiers
  from outside: \<open>uuid4 k\<close> is the text of the identifier drawn by the call number \<open>k\<close>.
  The state of both loops of \<open>chunk_document\<close> is \<open>(chunks, chunk_index)\<close> and the number
  of identifiers drawn so far. The parameters \<open>document_id\<close> and \<open>document_name\<close> are
  written \<open>doc_id\<close> and \<open>doc_name\<close>, the running \<open>chunk_index\<close> is \<open>index\<close>.
\<close>

type_synonym uuid_source = "nat \<Rightarrow> string"

type_synonym chunking_state = "Chunk list \<times> int \<times> nat"

fun emit_chunks ::
  "uuid_source \<Rightarrow> ParsedSection \<Rightarrow> bool \<Rightarrow> string \<Rightarrow> string \<Rightarrow> string list \<Rightarrow>
   chunking_state \<Rightarrow> chunking_state" where
  "emit_chunks uuid4 section table doc_id doc_name [] st = st"
| "emit_chunks uuid4 section table doc_id doc_name (chunk_text # rest)
     (chunks, index, drawn) =
     (let prefixed_content = add_context_prefix chunk_text section doc_name;
          chunk = \<lparr>chunk_id = uuid4 drawn,
                   content = prefixed_content,
                   document_id = doc_id,
                   document_name = doc_name,
                   metadata = \<lparr>page_number = ParsedSection.page_number section,
                               section_title = ParsedSection.section_title section,
                               chunk_index = index,
                               char_count = int (length prefixed_content),
                               token_estimate = int (length prefixed_content) div 4,
                               doc_type = ParsedSection.doc_type section,
                               is_table = table\<rparr>\<rparr>
      in emit_chunks uuid4 section table doc_id doc_name rest
           (chunks @ [chunk], index + 1, Suc drawn))"

text \<open>The chunk texts of one section: a table stays whole.\<close>

definition section_chunks :: "ChunkingEngine \<Rightarrow> ParsedSection \<Rightarrow> string list" where
  "section_chunks e section =
     (if section_is_table section then [ParsedSection.content section]
      else chunk_section e section)"

fun chunk_sections ::
  "ChunkingEngine \<Rightarrow> uuid_source \<Rightarrow> string \<Rightarrow> string \<Rightarrow> ParsedSection list \<Rightarrow>
   chunking_state \<Rightarrow> chunking_state" where
  "chunk_sections e uuid4 doc_id doc_name [] st = st"
| "chunk_sections e uuid4 doc_id doc_name (section # rest) st =
     chunk_sections e uuid4 doc_id doc_name rest
       (emit_chunks uuid4 section (section_is_table section) doc_id doc_name
          (section_chunks e section) st)"

definition chunk_document ::
  "ChunkingEngine \<Rightarrow> uuid_source \<Rightarrow> ParsedSection list \<Rightarrow> string \<Rightarrow> string \<Rightarrow> Chunk list" where
  "chunk_document e uuid4 sections doc_id doc_name =
     fst (chunk_sections e uuid4 doc_id doc_name sections ([], 0, 0))"

section \<open>The document processor\<close>

text \<open>
  An exception is known by its message, the text that \<open>str(e)\<close> gives, and by whether it is
  an instance of \<open>Exception\<close>. The handler of \<open>process_document\<close> is \<open>except Exception\<close>: it
  catches the instances of \<open>Exception\<close> and no other instance of \<open>BaseException\<close>, such as
  \<open>KeyboardInterrupt\<close>, \<open>SystemExit\<close> or \<open>asyncio.CancelledError\<close>.
\<close>

datatype py_exception =
    Exception string        \<comment> \<open>an instance of \<open>Exception\<close>\<close>
  | BaseException string    \<comment> \<open>an instance of \<open>BaseException\<close> that is not one of \<open>Exception\<close>\<close>

fun str_exception :: "py_exception \<Rightarrow> string" where
  "str_exception (Exception msg) = msg"
| "str_exception (BaseException msg) = msg"

record DocumentStatusResponse =
  document_id :: string
  status :: string
  chunk_count :: int
  error_message :: "string option"

text \<open>
  The result of a run. The source also records the elapsed wall-clock time, a float read
  from the system clock; the model leaves that field out.
\<close>

record ProcessingResult =
  document_id :: string
  status :: string
  chunk_count :: int
  error_message :: "string option"

text \<open>
  The services the processor is built from. Each call either returns or raises. \<open>'v\<close> is
  the type of an embedding vector. \<open>path_suffix\<close> stands for \<open>Path(filename).suffix\<close> of the
  standard library.
\<close>

record 'v DocumentProcessor =
  path_suffix :: "string \<Rightarrow> string"
  parser_parse :: "string \<Rightarrow> string \<Rightarrow> py_exception + ParsedSection list"
  chunker_chunk_document ::
    "ParsedSection list \<Rightarrow> string \<Rightarrow> string \<Rightarrow> py_exception + Chunk list"
  embedder_embed_batch :: "string list \<Rightarrow> int \<Rightarrow> py_exception + 'v list"
  vector_store_upsert_chunks :: "string \<Rightarrow> Chunk list \<Rightarrow> 'v list \<Rightarrow> py_exception + int"
  vector_store_delete_document_chunks :: "string \<Rightarrow> string \<Rightarrow> py_exception + int"

text \<open>The calls made to the services, with their arguments.\<close>

datatype 'v service_call =
    DeleteDocumentChunks string string
  | Parse string string
  | ChunkDocument "ParsedSection list" string string
  | EmbedBatch "string list" int
  | UpsertChunks string "Chunk list" "'v list"

text \<open>
  The state a run works on: the module's dictionary \<open>_processing_status\<close> and the calls made
  to the services so far, the latest last.
\<close>

record 'v ProcessorState =
  processing_status :: "string \<rightharpoonup> DocumentStatusResponse"
  calls :: "'v service_call list"

definition ALLOWED_EXTENSIONS :: "string set" where
  "ALLOWED_EXTENSIONS = {''pdf'', ''docx'', ''csv'', ''txt'', ''md''}"

definition update_status ::
  "string \<Rightarrow> string \<Rightarrow> int \<Rightarrow> string option \<Rightarrow> 'v ProcessorState \<Rightarrow> 'v ProcessorState" where
  "update_status doc_id new_status count message st =
     st\<lparr>processing_status := (processing_status st)(doc_id \<mapsto>
          \<lparr>DocumentStatusResponse.document_id = doc_id,
           status = new_status,
           chunk_count = count,
           error_message = message\<rparr>)\<rparr>"

definition get_status :: "string \<Rightarrow> 'v ProcessorState \<Rightarrow> DocumentStatusResponse option" where
  "get_status doc_id st = processing_status st doc_id"

definition clear_status :: "string \<Rightarrow> 'v ProcessorState \<Rightarrow> 'v ProcessorState" where
  "clear_status doc_id st = st\<lparr>processing_status := (processing_status st)(doc_id := None)\<rparr>"

definition called :: "'v service_call \<Rightarrow> 'v ProcessorState \<Rightarrow> 'v ProcessorState" where
  "called c st = st\<lparr>calls := calls st @ [c]\<rparr>"

definition error_result ::
  "string \<Rightarrow> string \<Rightarrow> 'v ProcessorState \<Rightarrow> ProcessingResult \<times> 'v ProcessorState" where
  "error_result doc_id message st =
     (\<lparr>ProcessingResult.document_id = doc_id,
       status = ''error'',
       chunk_count = 0,
       error_message = Some message\<rparr>,
      update_status doc_id ''error'' 0 (Some message) st)"

definition delete_document ::
  "'v DocumentProcessor \<Rightarrow> string \<Rightarrow> string \<Rightarrow> 'v ProcessorState \<Rightarrow>
   (py_exception + int) \<times> 'v ProcessorState" where
  "delete_document proc project_id doc_id st =
     (vector_store_delete_document_chunks proc project_id doc_id,
      called (DeleteDocumentChunks project_id doc_id) st)"

text \<open>
  The body of the \<open>try\<close> statement of \<open>process_document\<close>. It ends with a result, or with
  the exception that a service raised; the state holds what was done up to there.
\<close>

definition process_document_body ::
  "'v DocumentProcessor \<Rightarrow> string \<Rightarrow> string \<Rightarrow> string \<Rightarrow> string \<Rightarrow> 'v ProcessorState \<Rightarrow>
   (py_exception + ProcessingResult) \<times> 'v ProcessorState" where
  "process_document_body proc file_path project_id doc_id filename st =
     (let file_ext = lstrip_dots (lower (path_suffix proc filename))
      in if file_ext \<notin> ALLOWED_EXTENSIONS
         then (let (r, st) = error_result doc_id (''Unsupported file type: .'' @ file_ext) st
               in (Inr r, st))
         else
           (let st = update_status doc_id ''processing'' 0 None st;
                (deleted, st) = delete_document proc project_id doc_id st
            in case deleted of
                 Inl ex \<Rightarrow> (Inl ex, st)
               | Inr _ \<Rightarrow>
           (let st = called (Parse file_path file_ext) st
            in case parser_parse proc file_path file_ext of
                 Inl ex \<Rightarrow> (Inl ex, st)
               | Inr sections \<Rightarrow>
           if sections = []
           then (let (r, st) = error_result doc_id
                                 ''No content could be extracted from the document'' st
                 in (Inr r, st))
           else
           (let st = called (ChunkDocument sections doc_id filename) st
            in case chunker_chunk_document proc sections doc_id filename of
                 Inl ex \<Rightarrow> (Inl ex, st)
               | Inr chunks \<Rightarrow>
           if chunks = []
           then (let (r, st) = error_result doc_id ''Document could not be chunked'' st
                 in (Inr r, st))
           else
           (let contents = map Chunk.content chunks;
                st = called (EmbedBatch contents 32) st
            in case embedder_embed_batch proc contents 32 of
                 Inl ex \<Rightarrow> (Inl ex, st)
               | Inr embeddings \<Rightarrow>
           if length embeddings \<noteq> length chunks
           then (let (r, st) = error_result doc_id ''Embedding generation failed'' st
                 in (Inr r, st))
           else
           (let st = called (UpsertChunks project_id chunks embeddings) st
            in case vector_store_upsert_chunks proc project_id chunks embeddings of
                 Inl ex \<Rightarrow> (Inl ex, st)
               | Inr upserted \<Rightarrow>
           if upserted = 0
           then (let (r, st) = error_result doc_id ''Failed to store vectors in Qdrant'' st
                 in (Inr r, st))
           else
             (let st = update_status doc_id ''ready'' upserted None st
              in (Inr \<lparr>ProcessingResult.document_id = doc_id,
                       status = ''ready'',
                       chunk_count = upserted,
                       error_message = None\<rparr>, st))))))))"

text \<open>
  \<open>process_document\<close>: the body above under the handler \<open>except Exception as e\<close>, which
  turns an instance of \<open>Exception\<close> into the error result with the message \<open>str(e)\<close>. Any
  other exception leaves \<open>process_document\<close>: the call ends with it (\<open>Inl\<close>) and returns no
  result.
\<close>

definition process_document ::
  "'v DocumentProcessor \<Rightarrow> string \<Rightarrow> string \<Rightarrow> string \<Rightarrow> string \<Rightarrow> 'v ProcessorState \<Rightarrow>
   (py_exception + ProcessingResult) \<times> 'v ProcessorState" where
  "process_document proc file_path project_id doc_id filename st =
     (case process_document_body proc file_path project_id doc_id filename st of
        (Inl e, st) \<Rightarrow>
          (case e of
             Exception msg \<Rightarrow>
               (let (r, st) = error_result doc_id (str_exception e) st in (Inr r, st))
           | BaseException msg \<Rightarrow> (Inl e, st))
      | (Inr r, st) \<Rightarrow> (Inr r, st))"



section \<open>What the loops append\<close>

text \<open>
  For the proofs: the chunks that the inner loop appends for the chunk texts of one section,
  and those that the outer loop appends for a list of sections, when the loop starts at the
  running index \<open>index\<close> with \<open>drawn\<close> identifiers drawn.
\<close>

definition built_chunks ::
  "uuid_source \<Rightarrow> ParsedSection \<Rightarrow> bool \<Rightarrow> string \<Rightarrow> string \<Rightarrow> string list \<Rightarrow> int \<Rightarrow> nat \<Rightarrow> Chunk list" where
  "built_chunks uuid4 section table doc_id doc_name texts index drawn =
     fst (emit_chunks uuid4 section table doc_id doc_name texts ([], index, drawn))"

definition built_document ::
  "ChunkingEngine \<Rightarrow> uuid_source \<Rightarrow> string \<Rightarrow> string \<Rightarrow> ParsedSection list \<Rightarrow> int \<Rightarrow> nat \<Rightarrow> Chunk list" where
  "built_document e uuid4 doc_id doc_name sections index drawn =
     fst (chunk_sections e uuid4 doc_id doc_name sections ([], index, drawn))"

text \<open>
  What both loops of \<open>chunk_document\<close> keep true: the chunks built so far carry the indices
  0, 1, 2, ... in order, and the running index is their number.
\<close>

definition index_inv :: "chunking_state \<Rightarrow> bool" where
  "index_inv st = (case st of (chunks, index, drawn) \<Rightarrow>
     map (\<lambda>c. chunk_index (Chunk.metadata c)) chunks = map int [0 ..< length chunks]
     \<and> index = int (length chunks))"

section \<open>The parts of each chunk\<close>

text \<open>
  For the proofs: \<open>group_loop\<close> is the loop of \<open>_combine_with_overlap\<close> with one change, it
  keeps the list of parts of every chunk it closes where the source keeps their join. So
  \<open>combine_groups\<close> gives, for each chunk that \<open>combine_with_overlap\<close> returns, the parts it
  was joined from (lemma \<open>combine_with_overlap_groups\<close>).
\<close>

fun group_loop ::
  "ChunkingEngine \<Rightarrow> string list \<Rightarrow> string list list \<times> string list \<times> int \<Rightarrow>
   string list list \<times> string list \<times> int" where
  "group_loop e [] st = st"
| "group_loop e (part # rest) (groups, current_chunk_parts, current_length) =
     (let part_length = int (length part);
          separator_length = (if current_chunk_parts \<noteq> [] then 2 else 0);
          (groups, current_chunk_parts, current_length) =
            (if current_length + separator_length + part_length > chunk_size_chars e
             then
               (if current_chunk_parts \<noteq> []
                then (let (overlap_parts, overlap_length) = get_overlap_parts e current_chunk_parts
                      in (groups @ [current_chunk_parts], overlap_parts, overlap_length))
                else (groups, current_chunk_parts, current_length))
             else (groups, current_chunk_parts, current_length))
      in group_loop e rest
           (groups, current_chunk_parts @ [part], current_length + separator_length + part_length))"

definition combine_groups :: "ChunkingEngine \<Rightarrow> string list \<Rightarrow> string list list" where
  "combine_groups e parts =
     (if parts = [] then []
      else
        (let (groups, current_chunk_parts, current_length) = group_loop e parts ([], [], 0)
         in if current_chunk_parts \<noteq> [] then groups @ [current_chunk_parts]
            else groups))"

text \<open>The length that the loops charge for a list of parts: two characters after each part.\<close>

definition cost :: "string list \<Rightarrow> int" where
  "cost ps = (\<Sum>p\<leftarrow>ps. int (length p) + 2)"

text \<open>
  The parts of one chunk and of the next: the next begins with the overlap taken from the
  first, and goes on with at least one new part.
\<close>

definition carried :: "ChunkingEngine \<Rightarrow> string list \<Rightarrow> string list \<Rightarrow> bool" where
  "carried e g g' =
     (\<exists>rest. rest \<noteq> [] \<and> g' = fst (get_overlap_parts e g) @ rest)"

section \<open>Concrete inputs\<close>

text \<open>Inputs on which the theorems are instantiated and the functions evaluated.\<close>

definition zero_ids :: uuid_source where
  "zero_ids = (\<lambda>k. ''00000000-0000-4000-8000-000000000000'')"

definition default_engine :: ChunkingEngine where
  "default_engine = ChunkingEngine_init 512 50"

definition tiny_engine :: ChunkingEngine where
  "tiny_engine = ChunkingEngine_init 2 1"

definition negative_overlap_engine :: ChunkingEngine where
  "negative_overlap_engine = ChunkingEngine_init 2 (- 1)"

definition empty_section :: ParsedSection where
  "empty_section = \<lparr>ParsedSection.content = [], page_number = None, section_title = None,
                     doc_type = ''txt'', metadata = Map.empty\<rparr>"

definition table_section :: ParsedSection where
  "table_section = \<lparr>ParsedSection.content = ''| Column0 | Column1 |'' @ [newline] @ ''| Value0 | Value1 |'',
                     page_number = Some 3, section_title = None,
                     doc_type = ''pdf'', metadata = [''type'' \<mapsto> VStr ''table'']\<rparr>"

definition two_paragraphs :: ParsedSection where
  "two_paragraphs = \<lparr>ParsedSection.content = ''aaaaaa'' @ [newline, newline] @ ''bbbbbbbb'',
                      page_number = None, section_title = None,
                      doc_type = ''txt'', metadata = Map.empty\<rparr>"

definition one_long_word :: ParsedSection where
  "one_long_word = \<lparr>ParsedSection.content = ''abcdefghijkl'',
                     page_number = None, section_title = None,
                     doc_type = ''txt'', metadata = Map.empty\<rparr>"

text \<open>
  \<open>Path(path).suffix\<close> on a POSIX system: the path is cut at the slashes, the empty
  components and the components \<open>.\<close> are dropped, and the name is the last component that
  is left (the empty string if none is). The suffix is the text of the name from its last
  dot on, when that dot is neither the first nor the last character of the name, and empty
  otherwise.
\<close>

fun split_on :: "char \<Rightarrow> string \<Rightarrow> string list" where
  "split_on c [] = [[]]"
| "split_on c (x # xs) =
     (if x = c then [] # split_on c xs
      else (case split_on c xs of [] \<Rightarrow> [[x]] | p # ps \<Rightarrow> (x # p) # ps))"

definition path_name :: "string \<Rightarrow> string" where
  "path_name path =
     (let components = filter (\<lambda>c. c \<noteq> [] \<and> c \<noteq> ''.'') (split_on CHR ''/'' path)
      in if components = [] then [] else last components)"

definition plain_suffix :: "string \<Rightarrow> string" where
  "plain_suffix path =
     (let name = path_name path;
          ext = rev (takeWhile (\<lambda>c. c \<noteq> CHR ''.'') (rev name))
      in if CHR ''.'' \<in> set name \<and> ext \<noteq> [] \<and> length ext + 1 < length name
         then CHR ''.'' # ext else [])"

definition short_section :: ParsedSection where
  "short_section = \<lparr>ParsedSection.content = ''First section content here.'',
                     page_number = None, section_title = None,
                     doc_type = ''txt'', metadata = Map.empty\<rparr>"

text \<open>
  A processor whose services all succeed: the parser finds one short section, the chunker is
  the engine above with the default sizes, an embedding is a number, and the store keeps
  every chunk. Then the same processor with a store that keeps nothing, with an embedder
  that raises as the embedder of the source does when its model is not loaded, and with an
  embedder that raises \<open>SystemExit\<close>.
\<close>

definition demo_processor :: "nat DocumentProcessor" where
  "demo_processor =
     \<lparr>path_suffix = plain_suffix,
      parser_parse = (\<lambda>file_path file_type. Inr [short_section]),
      chunker_chunk_document =
        (\<lambda>sections doc_id doc_name.
           Inr (chunk_document default_engine zero_ids sections doc_id doc_name)),
      embedder_embed_batch = (\<lambda>texts batch_size. Inr (map length texts)),
      vector_store_upsert_chunks = (\<lambda>project_id chunks embeddings. Inr (int (length chunks))),
      vector_store_delete_document_chunks = (\<lambda>project_id doc_id. Inr 0)\<rparr>"

definition no_store_processor :: "nat DocumentProcessor" where
  "no_store_processor =
     demo_processor\<lparr>vector_store_upsert_chunks := (\<lambda>project_id chunks embeddings. Inr 0)\<rparr>"



definition fresh_state :: "nat ProcessorState" where
  "fresh_state = \<lparr>processing_status = Map.empty, calls = []\<rparr>"

definition notes_chunks :: "Chunk list" where
  "notes_chunks = chunk_document default_engine zero_ids [short_section] ''doc_1'' ''notes.txt''"

text \<open>
  The first text of the sentence tests, with the dot after \<open>Dr\<close> masked or not (\<open>d\<close>) and the
  dot after \<open>Mr\<close> masked or not (\<open>m\<close>); and the second text.
\<close>

definition doctors :: "bool \<Rightarrow> bool \<Rightarrow> string" where
  "doctors d m =
     (if d then ''Dr<<<DOT>>>'' else ''Dr.'') @ '' Smith went to the store. He met ''
     @ (if m then ''Mr<<<DOT>>>'' else ''Mr.'') @ '' Jones there.''"

definition pi_text :: string where
  "pi_text = ''The value is 3.14159. This is pi.''"

section \<open>The patterns never match the empty string\<close>

text \<open>
  A match is never longer than the text, and none of the four patterns of the chunker
  matches the empty string. So for these patterns \<open>match_at\<close> is the first match in the
  order of the backtracking matcher.
\<close>

lemma matches_within: "n \<in> set (matches r p s) \<Longrightarrow> n \<le> length s"
proof (induction r arbitrary: n p s)
  case (Lit c)
  then show ?case by (auto split: list.splits if_splits)
next
  case (Cls k)
  then show ?case by (auto split: list.splits if_splits)
next
  case (Star k)
  then show ?case using length_takeWhile_le [of "in_class k" s] by auto
next
  case (Plus k)
  then show ?case using length_takeWhile_le [of "in_class k" s] by auto
next
  case (Seq a b)
  from Seq.prems obtain i j where i: "i \<in> set (matches a p s)"
    and j: "j \<in> set (matches b (prev_after p s i) (drop i s))" and n: "n = i + j"
    by auto
  from Seq.IH(1) [OF i] Seq.IH(2) [OF j] n show ?case by simp
next
  case (Alt a b)
  then show ?case by auto
next
  case (LookBehind k)
  then show ?case by (auto split: option.splits if_splits)
next
  case (LookAhead k)
  then show ?case by (auto split: list.splits if_splits)
next
  case WordBoundary
  then show ?case by (auto split: if_splits)
qed

lemma empty_match_Seq:
  "0 \<in> set (matches (Seq a b) p s) \<Longrightarrow> 0 \<in> set (matches a p s) \<and> 0 \<in> set (matches b p s)"
  by (auto simp: prev_after_def)

lemma no_empty_match_Lit: "0 \<notin> set (matches (Lit c) p s)"
  by (auto split: list.splits if_splits)

lemma no_empty_match_Cls: "0 \<notin> set (matches (Cls k) p s)"
  by (auto split: list.splits if_splits)

lemma no_empty_match_Plus: "0 \<notin> set (matches (Plus k) p s)"
  by auto

lemma no_empty_match_lits: "0 \<notin> set (matches r p s) \<Longrightarrow> 0 \<notin> set (matches (lits cs r) p s)"
  by (cases cs) (auto dest: empty_match_Seq simp: no_empty_match_Lit simp del: matches.simps)

lemma paragraph_break_nonempty: "0 \<notin> set (matches PARAGRAPH_BREAK p s)"
  unfolding PARAGRAPH_BREAK_def using empty_match_Seq no_empty_match_Lit by blast

lemma sentence_split_nonempty: "0 \<notin> set (matches SENTENCE_SPLIT_PATTERN p s)"
proof
  assume "0 \<in> set (matches SENTENCE_SPLIT_PATTERN p s)"
  then have "0 \<in> set (matches (Seq (LookBehind (OneOf ''.!?''))
                 (Seq (Plus Space) (LookAhead (Range CHR ''A'' CHR ''Z'')))) p s)
           \<or> 0 \<in> set (matches (Seq (LookBehind (OneOf ''.!?''))
                 (Seq (Star Space) (Lit newline))) p s)"
    unfolding SENTENCE_SPLIT_PATTERN_def by (simp del: matches.simps(5) add: matches.simps(6))
  then show False
    using empty_match_Seq no_empty_match_Lit no_empty_match_Plus by blast
qed

lemma decimal_nonempty: "0 \<notin> set (matches DECIMAL_PATTERN p s)"
  unfolding DECIMAL_PATTERN_def using empty_match_Seq no_empty_match_Cls by blast

lemma abbrev_nonempty: "0 \<notin> set (matches (abbrev_pattern abbrev) p s)"
  unfolding abbrev_pattern_def
  using empty_match_Seq no_empty_match_lits [OF no_empty_match_Lit] by blast

lemma match_at_first:
  assumes "0 \<notin> set (matches r p s)"
  shows "match_at r p s = (case matches r p s of [] \<Rightarrow> None | n # _ \<Rightarrow> Some n)"
proof (cases "matches r p s")
  case Nil
  then show ?thesis by (simp add: match_at_def)
next
  case (Cons n ns)
  then have "n \<in> set (matches r p s)" by simp
  with assms matches_within [of n r p s] have "0 < n \<and> n \<le> length s"
    by (metis gr0I)
  with Cons show ?thesis by (simp add: match_at_def)
qed

section \<open>The chunk index\<close>

lemma emit_chunks_index_inv:
  "index_inv st \<Longrightarrow> index_inv (emit_chunks uuid4 section table doc_id doc_name texts st)"
proof (induction texts arbitrary: st)
  case Nil
  then show ?case by simp
next
  case (Cons t texts)
  obtain chunks index drawn where st: "st = (chunks, index, drawn)"
    by (cases st)
  show ?case
    unfolding st emit_chunks.simps Let_def
    using Cons.prems by (intro Cons.IH) (simp add: index_inv_def st)
qed

lemma chunk_sections_index_inv:
  "index_inv st \<Longrightarrow> index_inv (chunk_sections e uuid4 doc_id doc_name sections st)"
  by (induction sections arbitrary: st) (simp_all add: emit_chunks_index_inv)

text \<open>
  C1. For every list of sections, every document id and name, every configuration and every
  source of identifiers, the \<open>chunk_index\<close> values of the chunks that \<open>chunk_document\<close>
  returns, read in output order, are exactly 0, 1, ..., n - 1, where n is the number of
  chunks: the counter runs across all sections and is never reset.
\<close>

theorem chunk_index_contiguous:
  "map (\<lambda>c. chunk_index (Chunk.metadata c)) (chunk_document e uuid4 sections doc_id doc_name)
     = map int [0 ..< length (chunk_document e uuid4 sections doc_id doc_name)]"
proof -
  have "index_inv (chunk_sections e uuid4 doc_id doc_name sections ([], 0, 0))"
    by (rule chunk_sections_index_inv) (simp add: index_inv_def)
  then show ?thesis
    by (simp add: chunk_document_def index_inv_def split: prod.splits)
qed

section \<open>The chunks of a document, section by section\<close>

lemma emit_chunks_appends:
  "emit_chunks uuid4 section table doc_id doc_name texts (chunks, index, drawn) =
     (chunks @ built_chunks uuid4 section table doc_id doc_name texts index drawn,
      index + int (length texts), drawn + length texts)"
proof (induction texts arbitrary: chunks index drawn)
  case Nil
  show ?case by (simp add: built_chunks_def)
next
  case (Cons t texts)
  let ?emit = "emit_chunks uuid4 section table doc_id doc_name"
  let ?built = "built_chunks uuid4 section table doc_id doc_name"
  obtain c where step: "\<And>cs. ?emit (t # texts) (cs, index, drawn) = ?emit texts (cs @ [c], index + 1, Suc drawn)"
    by (simp add: Let_def)
  have "?built (t # texts) index drawn = fst (?emit texts ([] @ [c], index + 1, Suc drawn))"
    unfolding built_chunks_def step ..
  also have "\<dots> = [c] @ ?built texts (index + 1) (Suc drawn)"
    unfolding Cons.IH by simp
  finally have b: "?built (t # texts) index drawn = [c] @ ?built texts (index + 1) (Suc drawn)" .
  show ?case
    unfolding step Cons.IH b by simp
qed

lemma built_chunks_Nil [simp]:
  "built_chunks uuid4 section table doc_id doc_name [] index drawn = []"
  by (simp add: built_chunks_def)

lemma built_chunks_Cons:
  "built_chunks uuid4 section table doc_id doc_name (t # texts) index drawn =
     \<lparr>chunk_id = uuid4 drawn,
      content = add_context_prefix t section doc_name,
      document_id = doc_id,
      document_name = doc_name,
      metadata = \<lparr>page_number = ParsedSection.page_number section,
                  section_title = ParsedSection.section_title section,
                  chunk_index = index,
                  char_count = int (length (add_context_prefix t section doc_name)),
                  token_estimate = int (length (add_context_prefix t section doc_name)) div 4,
                  doc_type = ParsedSection.doc_type section,
                  is_table = table\<rparr>\<rparr>
     # built_chunks uuid4 section table doc_id doc_name texts (index + 1) (Suc drawn)"
  (is "?lhs = ?c # ?rest")
proof -
  have "?lhs = fst (emit_chunks uuid4 section table doc_id doc_name texts
                      ([?c], index + 1, Suc drawn))"
    by (simp add: built_chunks_def Let_def)
  also have "\<dots> = ?c # ?rest"
    by (simp only: emit_chunks_appends fst_conv append_Cons append_Nil)
  finally show ?thesis .
qed

lemma length_built_chunks [simp]:
  "length (built_chunks uuid4 section table doc_id doc_name texts index drawn) = length texts"
  by (induction texts arbitrary: index drawn) (simp_all add: built_chunks_Cons)

lemma content_built_chunks:
  "map Chunk.content (built_chunks uuid4 section table doc_id doc_name texts index drawn) =
     map (\<lambda>t. add_context_prefix t section doc_name) texts"
  by (induction texts arbitrary: index drawn) (simp_all add: built_chunks_Cons)

lemma chunk_sections_appends:
  "chunk_sections e uuid4 doc_id doc_name sections (chunks, index, drawn) =
     (chunks @ built_document e uuid4 doc_id doc_name sections index drawn,
      index + int (length (built_document e uuid4 doc_id doc_name sections index drawn)),
      drawn + length (built_document e uuid4 doc_id doc_name sections index drawn))"
proof (induction sections arbitrary: chunks index drawn)
  case Nil
  show ?case by (simp add: built_document_def)
next
  case (Cons s sections)
  let ?run = "chunk_sections e uuid4 doc_id doc_name"
  let ?doc = "built_document e uuid4 doc_id doc_name"
  define new where "new = built_chunks uuid4 s (section_is_table s) doc_id doc_name (section_chunks e s) index drawn"
  define i' where "i' = index + int (length (section_chunks e s))"
  define k' where "k' = drawn + length (section_chunks e s)"
  have step: "?run (s # sections) (cs, index, drawn) = ?run sections (cs @ new, i', k')" for cs
    by (simp add: emit_chunks_appends new_def i'_def k'_def)
  have "?doc (s # sections) index drawn = fst (?run sections ([] @ new, i', k'))"
    unfolding built_document_def step ..
  also have "\<dots> = new @ ?doc sections i' k'"
    unfolding Cons.IH by simp
  finally have b: "?doc (s # sections) index drawn = new @ ?doc sections i' k'" .
  have len: "length new = length (section_chunks e s)"
    by (simp add: new_def)
  show ?case
    unfolding step Cons.IH b by (simp add: i'_def k'_def len)
qed

lemma built_document_Nil [simp]:
  "built_document e uuid4 doc_id doc_name [] index drawn = []"
  by (simp add: built_document_def)

lemma built_document_Cons:
  "built_document e uuid4 doc_id doc_name (s # sections) index drawn =
     built_chunks uuid4 s (section_is_table s) doc_id doc_name (section_chunks e s) index drawn
     @ built_document e uuid4 doc_id doc_name sections
         (index + int (length (section_chunks e s))) (drawn + length (section_chunks e s))"
  (is "?lhs = ?new @ ?rest")
proof -
  have "?lhs = fst (chunk_sections e uuid4 doc_id doc_name sections
                      (?new, index + int (length (section_chunks e s)),
                       drawn + length (section_chunks e s)))"
    by (simp add: built_document_def emit_chunks_appends)
  also have "\<dots> = ?new @ ?rest"
    by (simp only: chunk_sections_appends fst_conv)
  finally show ?thesis .
qed

lemma built_document_append:
  "built_document e uuid4 doc_id doc_name (xs @ ys) index drawn =
     built_document e uuid4 doc_id doc_name xs index drawn
     @ built_document e uuid4 doc_id doc_name ys
         (index + int (length (built_document e uuid4 doc_id doc_name xs index drawn)))
         (drawn + length (built_document e uuid4 doc_id doc_name xs index drawn))"
  by (induction xs arbitrary: index drawn) (simp_all add: built_document_Cons add.assoc)

lemma content_built_document:
  "map Chunk.content (built_document e uuid4 doc_id doc_name sections index drawn) =
     concat (map (\<lambda>s. map (\<lambda>t. add_context_prefix t s doc_name) (section_chunks e s)) sections)"
  by (induction sections arbitrary: index drawn)
     (simp_all add: built_document_Cons content_built_chunks)

lemma chunk_document_built:
  "chunk_document e uuid4 sections doc_id doc_name =
     built_document e uuid4 doc_id doc_name sections 0 0"
  by (simp add: chunk_document_def built_document_def)

lemma section_in_document:
  "\<exists>more. chunk_document e uuid4 (before @ s # after) doc_id doc_name =
     chunk_document e uuid4 before doc_id doc_name
     @ built_chunks uuid4 s (section_is_table s) doc_id doc_name (section_chunks e s)
         (int (length (chunk_document e uuid4 before doc_id doc_name)))
         (length (chunk_document e uuid4 before doc_id doc_name))
     @ more
   \<and> map Chunk.content more = map Chunk.content (chunk_document e uuid4 after doc_id doc_name)"
  by (simp add: chunk_document_built built_document_append built_document_Cons
        content_built_document)

section \<open>Tables\<close>

text \<open>
  C2. A section whose metadata marks it as a table gives exactly one chunk, whatever the
  sizes of the engine: in the chunks of any document that holds the section, the chunks of
  the sections before it are followed by one chunk \<open>c\<close> and then by those of the sections
  after it. The content of \<open>c\<close> is the context prefix, a line break and the content of the
  section, unchanged.
\<close>

theorem table_section_single_chunk:
  assumes "section_is_table s"
  shows "\<exists>c more.
     chunk_document e uuid4 (before @ s # after) doc_id doc_name =
       chunk_document e uuid4 before doc_id doc_name @ c # more
     \<and> map Chunk.content more = map Chunk.content (chunk_document e uuid4 after doc_id doc_name)
     \<and> Chunk.content c = context_prefix s doc_name @ [newline] @ ParsedSection.content s
     \<and> is_table (Chunk.metadata c)"
proof -
  have texts: "section_chunks e s = [ParsedSection.content s]"
    using assms by (simp add: section_chunks_def)
  obtain more where more:
    "chunk_document e uuid4 (before @ s # after) doc_id doc_name =
       chunk_document e uuid4 before doc_id doc_name
       @ built_chunks uuid4 s (section_is_table s) doc_id doc_name (section_chunks e s)
           (int (length (chunk_document e uuid4 before doc_id doc_name)))
           (length (chunk_document e uuid4 before doc_id doc_name))
       @ more"
    "map Chunk.content more = map Chunk.content (chunk_document e uuid4 after doc_id doc_name)"
    using section_in_document by blast
  show ?thesis
    using more assms unfolding texts
    by (simp add: built_chunks_Cons add_context_prefix_def)
qed

text \<open>The theorem at a table of 42 characters and an engine whose chunks have 8.\<close>

theorem table_section_single_chunk_witness:
  "section_is_table table_section
   \<and> (\<exists>c more.
     chunk_document tiny_engine zero_ids ([] @ table_section # []) ''doc_1'' ''data.pdf'' =
       chunk_document tiny_engine zero_ids [] ''doc_1'' ''data.pdf'' @ c # more
     \<and> map Chunk.content more = map Chunk.content (chunk_document tiny_engine zero_ids [] ''doc_1'' ''data.pdf'')
     \<and> Chunk.content c = context_prefix table_section ''data.pdf'' @ [newline] @ ParsedSection.content table_section
     \<and> is_table (Chunk.metadata c))"
proof -
  have t: "section_is_table table_section"
    by (simp add: section_is_table_def table_section_def)
  from table_section_single_chunk [OF t] t show ?thesis by blast
qed

section \<open>Sections with no content\<close>

lemma chunk_section_empty:
  assumes "ParsedSection.content s = []"
  shows "chunk_section e s = (if 0 \<le> chunk_size_chars e then [[]] else [])"
  using assms
  by (simp add: chunk_section_def split_at_paragraphs_def re_split_def re_split_from.simps
        strip_def combine_with_overlap_def)

text \<open>
  C3 as stated: a section whose content is the empty string gives no chunk. With the default
  sizes (2048 and 200 characters) the section gives one chunk, the prefix and a line break:
  the empty content is not longer than the chunk size, and \<open>_chunk_section\<close> returns it as
  the only chunk text.
\<close>

theorem empty_section_counterexample:
  "ParsedSection.content empty_section = []
   \<and> map Chunk.content (chunk_document default_engine zero_ids [empty_section] ''doc_1'' ''a.txt'')
       = [''[Document: a.txt]'' @ [newline]]"
  by (simp add: chunk_document_built built_document_Cons built_chunks_Cons section_chunks_def
        section_is_table_def chunk_section_empty empty_section_def default_engine_def
        ChunkingEngine_init_def add_context_prefix_def context_prefix_def)

text \<open>
  C3 as amended. The functions of the chunker have no failing operation, so nothing is
  raised. A section whose content is the empty string gives exactly one chunk, the context
  prefix followed by a line break, when the section is a table or the chunk size is not
  negative; a section that is not a table gives no chunk when the chunk size is negative.
\<close>

theorem empty_section_chunks:
  assumes "ParsedSection.content s = []"
  shows "(section_is_table s \<or> 0 \<le> chunk_size_chars e \<longrightarrow>
           (\<exists>c more.
              chunk_document e uuid4 (before @ s # after) doc_id doc_name =
                chunk_document e uuid4 before doc_id doc_name @ c # more
              \<and> map Chunk.content more = map Chunk.content (chunk_document e uuid4 after doc_id doc_name)
              \<and> Chunk.content c = context_prefix s doc_name @ [newline]))
       \<and> (\<not> section_is_table s \<and> chunk_size_chars e < 0 \<longrightarrow>
           (\<exists>more.
              chunk_document e uuid4 (before @ s # after) doc_id doc_name =
                chunk_document e uuid4 before doc_id doc_name @ more
              \<and> map Chunk.content more = map Chunk.content (chunk_document e uuid4 after doc_id doc_name)))"
proof -
  obtain more where more:
    "chunk_document e uuid4 (before @ s # after) doc_id doc_name =
       chunk_document e uuid4 before doc_id doc_name
       @ built_chunks uuid4 s (section_is_table s) doc_id doc_name (section_chunks e s)
           (int (length (chunk_document e uuid4 before doc_id doc_name)))
           (length (chunk_document e uuid4 before doc_id doc_name))
       @ more"
    "map Chunk.content more = map Chunk.content (chunk_document e uuid4 after doc_id doc_name)"
    using section_in_document by blast
  have one: "section_is_table s \<or> 0 \<le> chunk_size_chars e \<Longrightarrow> section_chunks e s = [[]]"
    using assms by (auto simp: section_chunks_def chunk_section_empty)
  have none: "\<not> section_is_table s \<Longrightarrow> chunk_size_chars e < 0 \<Longrightarrow> section_chunks e s = []"
    using assms by (simp add: section_chunks_def chunk_section_empty)
  show ?thesis
  proof (intro conjI impI)
    assume "section_is_table s \<or> 0 \<le> chunk_size_chars e"
    then show "\<exists>c more.
              chunk_document e uuid4 (before @ s # after) doc_id doc_name =
                chunk_document e uuid4 before doc_id doc_name @ c # more
              \<and> map Chunk.content more = map Chunk.content (chunk_document e uuid4 after doc_id doc_name)
              \<and> Chunk.content c = context_prefix s doc_name @ [newline]"
      using more by (simp add: one built_chunks_Cons add_context_prefix_def)
  next
    assume "\<not> section_is_table s \<and> chunk_size_chars e < 0"
    then show "\<exists>more.
              chunk_document e uuid4 (before @ s # after) doc_id doc_name =
                chunk_document e uuid4 before doc_id doc_name @ more
              \<and> map Chunk.content more = map Chunk.content (chunk_document e uuid4 after doc_id doc_name)"
      using more by (simp add: none)
  qed
qed

theorem empty_section_chunks_witness:
  "ParsedSection.content empty_section = []
   \<and> 0 \<le> chunk_size_chars default_engine
   \<and> (\<exists>c more.
        chunk_document default_engine zero_ids ([] @ empty_section # []) ''doc_1'' ''a.txt'' =
          chunk_document default_engine zero_ids [] ''doc_1'' ''a.txt'' @ c # more
        \<and> map Chunk.content more
            = map Chunk.content (chunk_document default_engine zero_ids [] ''doc_1'' ''a.txt'')
        \<and> Chunk.content c = context_prefix empty_section ''a.txt'' @ [newline])"
proof -
  have c: "ParsedSection.content empty_section = []"
    by (simp add: empty_section_def)
  have z: "0 \<le> chunk_size_chars default_engine"
    by (simp add: default_engine_def ChunkingEngine_init_def)
  from empty_section_chunks [OF c, of default_engine zero_ids "[]" "[]" "''doc_1''" "''a.txt''"] c z
  show ?thesis by blast
qed

section \<open>Determinism\<close>

lemma built_chunks_ids:
  "map (\<lambda>c. c\<lparr>chunk_id := []\<rparr>) (built_chunks u1 section table doc_id doc_name texts index k1) =
   map (\<lambda>c. c\<lparr>chunk_id := []\<rparr>) (built_chunks u2 section table doc_id doc_name texts index k2)"
  by (induction texts arbitrary: index k1 k2) (simp_all add: built_chunks_Cons)

lemma built_document_ids:
  "map (\<lambda>c. c\<lparr>chunk_id := []\<rparr>) (built_document e u1 doc_id doc_name sections index k1) =
   map (\<lambda>c. c\<lparr>chunk_id := []\<rparr>) (built_document e u2 doc_id doc_name sections index k2)"
proof (induction sections arbitrary: index k1 k2)
  case Nil
  show ?case by simp
next
  case (Cons s sections)
  show ?case
    unfolding built_document_Cons map_append
    using built_chunks_ids Cons.IH by (rule arg_cong2 [where f = append])
qed

text \<open>
  C9. Two calls of \<open>chunk_document\<close> with the same sections, document id, document name and
  engine, whatever identifiers \<open>uuid4\<close> gives to each, return the same number of chunks and
  the same (content, metadata) pairs in the same order; the chunks differ in \<open>chunk_id\<close> at
  most.
\<close>

theorem chunking_deterministic:
  "length (chunk_document e u1 sections doc_id doc_name)
     = length (chunk_document e u2 sections doc_id doc_name)
   \<and> map (\<lambda>c. (Chunk.content c, Chunk.metadata c)) (chunk_document e u1 sections doc_id doc_name)
     = map (\<lambda>c. (Chunk.content c, Chunk.metadata c)) (chunk_document e u2 sections doc_id doc_name)
   \<and> map (\<lambda>c. c\<lparr>chunk_id := []\<rparr>) (chunk_document e u1 sections doc_id doc_name)
     = map (\<lambda>c. c\<lparr>chunk_id := []\<rparr>) (chunk_document e u2 sections doc_id doc_name)"
proof -
  let ?a = "chunk_document e u1 sections doc_id doc_name"
  let ?b = "chunk_document e u2 sections doc_id doc_name"
  have same: "map (\<lambda>c. c\<lparr>chunk_id := []\<rparr>) ?a = map (\<lambda>c. c\<lparr>chunk_id := []\<rparr>) ?b"
    unfolding chunk_document_built by (rule built_document_ids)
  have len: "length ?a = length ?b"
    using arg_cong [OF same, of length] by simp
  have "map (\<lambda>c. (Chunk.content c, Chunk.metadata c)) (map (\<lambda>c. c\<lparr>chunk_id := []\<rparr>) ?a)
      = map (\<lambda>c. (Chunk.content c, Chunk.metadata c)) (map (\<lambda>c. c\<lparr>chunk_id := []\<rparr>) ?b)"
    by (simp only: same)
  then have pairs: "map (\<lambda>c. (Chunk.content c, Chunk.metadata c)) ?a
      = map (\<lambda>c. (Chunk.content c, Chunk.metadata c)) ?b"
    by (simp add: comp_def)
  from len pairs same show ?thesis by blast
qed

section \<open>The overlap\<close>

lemma cost_simps [simp]:
  "cost [] = 0" "cost (p # ps) = int (length p) + 2 + cost ps"
  "cost (ps @ qs) = cost ps + cost qs"
  by (simp_all add: cost_def)

lemma join_Cons: "join sep (p # ps) = (if ps = [] then p else p @ sep @ join sep ps)"
  by (cases ps) simp_all

lemma length_join_SEP: "ps \<noteq> [] \<Longrightarrow> int (length (join SEP ps)) = cost ps - 2"
  by (induction ps) (auto simp: join_Cons SEP_def)

lemma suffix_join_append: "suffix (join sep ys) (join sep (xs @ ys))"
proof (induction xs)
  case Nil
  show ?case by simp
next
  case (Cons x xs)
  show ?case
  proof (cases "xs @ ys = []")
    case True
    then show ?thesis by simp
  next
    case False
    have "suffix (join sep (xs @ ys)) (x @ sep @ join sep (xs @ ys))"
      by (metis append_assoc suffixI)
    with Cons False show ?thesis
      by (auto simp: join_Cons intro: suffix_order.trans)
  qed
qed

lemma suffix_join_Cons: "suffix sl p \<Longrightarrow> suffix (join sep (sl # ys)) (join sep (p # ys))"
  by (auto simp: join_Cons suffix_def)

lemma tail_slice_suffix: "suffix (tail_slice p r) p"
  by (simp add: tail_slice_def suffix_drop)

lemma length_tail_slice:
  "0 < r \<Longrightarrow> r < int (length p) \<Longrightarrow> int (length (tail_slice p r)) = r"
  by (simp add: tail_slice_def)

lemma overlap_loop_shape:
  assumes "acc = [] \<or> cost acc - 2 \<le> chunk_overlap_chars e"
  shows "\<exists>k\<le>length rs.
     (rev (take k rs) @ acc = [] \<or> cost (rev (take k rs) @ acc) - 2 \<le> chunk_overlap_chars e)
   \<and> (k < length rs \<longrightarrow>
        chunk_overlap_chars e < cost (rev (take k rs) @ acc) + int (length (rs ! k)))
   \<and> ((k = length rs \<or> chunk_overlap_chars e \<le> cost (rev (take k rs) @ acc) \<or> rs ! k = [])
       \<and> overlap_loop e rs (acc, cost acc) = (rev (take k rs) @ acc, cost (rev (take k rs) @ acc))
      \<or> (k < length rs
         \<and> 0 < chunk_overlap_chars e - cost (rev (take k rs) @ acc)
         \<and> rs ! k \<noteq> []
         \<and> overlap_loop e rs (acc, cost acc) =
             (tail_slice (rs ! k) (chunk_overlap_chars e - cost (rev (take k rs) @ acc))
                # rev (take k rs) @ acc,
              chunk_overlap_chars e)))"
  using assms
proof (induction rs arbitrary: acc)
  case Nil
  then show ?case by simp
next
  case (Cons part rest)
  show ?case
  proof (cases "cost acc + int (length part) \<le> chunk_overlap_chars e")
    case True
    have pre: "part # acc = [] \<or> cost (part # acc) - 2 \<le> chunk_overlap_chars e"
      using True by simp
    have step: "overlap_loop e (part # rest) (acc, cost acc) =
                overlap_loop e rest (part # acc, cost (part # acc))"
      using True by (simp add: add.commute add.left_commute)
    from Cons.IH [OF pre] obtain k where k: "k \<le> length rest"
      "rev (take k rest) @ part # acc = [] \<or>
         cost (rev (take k rest) @ part # acc) - 2 \<le> chunk_overlap_chars e"
      "k < length rest \<longrightarrow>
         chunk_overlap_chars e < cost (rev (take k rest) @ part # acc) + int (length (rest ! k))"
      "(k = length rest \<or> chunk_overlap_chars e \<le> cost (rev (take k rest) @ part # acc)
          \<or> rest ! k = [])
       \<and> overlap_loop e rest (part # acc, cost (part # acc)) =
          (rev (take k rest) @ part # acc, cost (rev (take k rest) @ part # acc))
      \<or> (k < length rest
         \<and> 0 < chunk_overlap_chars e - cost (rev (take k rest) @ part # acc)
         \<and> rest ! k \<noteq> []
         \<and> overlap_loop e rest (part # acc, cost (part # acc)) =
             (tail_slice (rest ! k) (chunk_overlap_chars e - cost (rev (take k rest) @ part # acc))
                # rev (take k rest) @ part # acc,
              chunk_overlap_chars e))"
      by blast
    show ?thesis
      apply (rule exI [of _ "Suc k"])
      using k unfolding step by simp
  next
    case False
    show ?thesis
      apply (rule exI [of _ 0])
      using False Cons.prems by (auto simp: Let_def)
  qed
qed

lemma get_overlap_parts_shape:
  "\<exists>k\<le>length parts.
     (drop (length parts - k) parts = []
        \<or> int (length (join SEP (drop (length parts - k) parts))) \<le> chunk_overlap_chars e)
   \<and> (k < length parts \<longrightarrow>
        chunk_overlap_chars e
          < int (length (join SEP (parts ! (length parts - Suc k) # drop (length parts - k) parts))))
   \<and> ((k = length parts
         \<or> chunk_overlap_chars e \<le> cost (drop (length parts - k) parts)
         \<or> parts ! (length parts - Suc k) = [])
       \<and> fst (get_overlap_parts e parts) = drop (length parts - k) parts
      \<or> k < length parts
       \<and> cost (drop (length parts - k) parts) < chunk_overlap_chars e
       \<and> fst (get_overlap_parts e parts) =
           tail_slice (parts ! (length parts - Suc k))
             (chunk_overlap_chars e - cost (drop (length parts - k) parts))
           # drop (length parts - k) parts
       \<and> int (length (join SEP (fst (get_overlap_parts e parts)))) = chunk_overlap_chars e)"
proof -
  let ?ov = "chunk_overlap_chars e"
  have "([]::string list) = [] \<or> cost [] - 2 \<le> ?ov" by simp
  from overlap_loop_shape [OF this, of "rev parts"]
  obtain k where k: "k \<le> length parts"
    and fit: "rev (take k (rev parts)) = [] \<or> cost (rev (take k (rev parts))) - 2 \<le> ?ov"
    and nxt: "k < length parts \<longrightarrow> ?ov < cost (rev (take k (rev parts))) + int (length (rev parts ! k))"
    and res: "(k = length parts \<or> ?ov \<le> cost (rev (take k (rev parts))) \<or> rev parts ! k = [])
       \<and> overlap_loop e (rev parts) ([], 0) =
                (rev (take k (rev parts)), cost (rev (take k (rev parts))))
      \<or> (k < length parts
         \<and> 0 < ?ov - cost (rev (take k (rev parts)))
         \<and> rev parts ! k \<noteq> []
         \<and> overlap_loop e (rev parts) ([], 0) =
             (tail_slice (rev parts ! k) (?ov - cost (rev (take k (rev parts))))
                # rev (take k (rev parts)), ?ov))"
    by auto
  define whole where "whole = drop (length parts - k) parts"
  have w: "rev (take k (rev parts)) = whole"
    by (simp add: whole_def take_rev)
  have n: "k < length parts \<Longrightarrow> rev parts ! k = parts ! (length parts - Suc k)"
    by (simp add: rev_nth)
  have a: "whole = [] \<or> int (length (join SEP whole)) \<le> ?ov"
    using fit unfolding w by (cases "whole = []") (auto simp: length_join_SEP)
  have b: "k < length parts \<longrightarrow>
             ?ov < int (length (join SEP (parts ! (length parts - Suc k) # whole)))"
    using nxt unfolding w by (auto simp: n length_join_SEP)
  have c: "(k = length parts \<or> ?ov \<le> cost whole \<or> parts ! (length parts - Suc k) = [])
         \<and> fst (get_overlap_parts e parts) = whole
      \<or> k < length parts
         \<and> cost whole < ?ov
         \<and> fst (get_overlap_parts e parts) =
             tail_slice (parts ! (length parts - Suc k)) (?ov - cost whole) # whole
         \<and> int (length (join SEP (fst (get_overlap_parts e parts)))) = ?ov"
  proof (rule disjE [OF res])
    assume r: "(k = length parts \<or> ?ov \<le> cost (rev (take k (rev parts))) \<or> rev parts ! k = [])
       \<and> overlap_loop e (rev parts) ([], 0) =
              (rev (take k (rev parts)), cost (rev (take k (rev parts))))"
    then have g: "fst (get_overlap_parts e parts) = whole"
      by (simp add: get_overlap_parts_def w)
    have "k = length parts \<or> ?ov \<le> cost whole \<or> parts ! (length parts - Suc k) = []"
    proof (cases "k < length parts")
      case True
      with r show ?thesis unfolding w by (simp add: n)
    next
      case False
      with k show ?thesis by simp
    qed
    with g show ?thesis by blast
  next
    assume r: "k < length parts
         \<and> 0 < ?ov - cost (rev (take k (rev parts)))
         \<and> rev parts ! k \<noteq> []
         \<and> overlap_loop e (rev parts) ([], 0) =
             (tail_slice (rev parts ! k) (?ov - cost (rev (take k (rev parts))))
                # rev (take k (rev parts)), ?ov)"
    then have kl: "k < length parts" and pos: "0 < ?ov - cost whole"
      and eq: "fst (get_overlap_parts e parts) =
                 tail_slice (parts ! (length parts - Suc k)) (?ov - cost whole) # whole"
      by (simp_all add: get_overlap_parts_def w n)
    have "?ov - cost whole < int (length (parts ! (length parts - Suc k)))"
      using nxt kl unfolding w by (simp add: n)
    then have "int (length (tail_slice (parts ! (length parts - Suc k)) (?ov - cost whole)))
                 = ?ov - cost whole"
      using pos by (rule length_tail_slice [rotated])
    then have "int (length (join SEP (fst (get_overlap_parts e parts)))) = ?ov"
      unfolding eq by (simp add: length_join_SEP)
    with kl eq pos show ?thesis by simp
  qed
  from k a b c show ?thesis unfolding whole_def by blast
qed

lemma overlap_within_chars:
  assumes "0 \<le> chunk_overlap_chars e"
  shows "int (length (join SEP (fst (get_overlap_parts e parts)))) \<le> chunk_overlap_chars e"
  using get_overlap_parts_shape [of parts e] assms by auto

lemma overlap_is_tail:
  "suffix (join SEP (fst (get_overlap_parts e parts))) (join SEP parts)"
proof -
  from get_overlap_parts_shape [of parts e]
  obtain k where k: "k \<le> length parts"
    and c: "fst (get_overlap_parts e parts) = drop (length parts - k) parts
      \<or> (k < length parts
         \<and> fst (get_overlap_parts e parts) =
             tail_slice (parts ! (length parts - Suc k))
               (chunk_overlap_chars e - cost (drop (length parts - k) parts))
             # drop (length parts - k) parts)"
    by blast
  have whole: "suffix (join SEP (drop m parts)) (join SEP parts)" for m
    using suffix_join_append [of SEP "drop m parts" "take m parts"] by simp
  from c show ?thesis
  proof
    assume "fst (get_overlap_parts e parts) = drop (length parts - k) parts"
    then show ?thesis by (simp add: whole)
  next
    assume r: "k < length parts
         \<and> fst (get_overlap_parts e parts) =
             tail_slice (parts ! (length parts - Suc k))
               (chunk_overlap_chars e - cost (drop (length parts - k) parts))
             # drop (length parts - k) parts"
    then have kl: "k < length parts" by simp
    have "drop (length parts - Suc k) parts =
            parts ! (length parts - Suc k) # drop (length parts - k) parts"
      using kl by (metis Cons_nth_drop_Suc Suc_diff_Suc diff_less zero_less_Suc length_greater_0_conv list.size(3) not_less_zero)
    then have "suffix (join SEP (parts ! (length parts - Suc k) # drop (length parts - k) parts))
                 (join SEP parts)"
      using whole [of "length parts - Suc k"] by simp
    moreover have "suffix (join SEP (fst (get_overlap_parts e parts)))
                 (join SEP (parts ! (length parts - Suc k) # drop (length parts - k) parts))"
      using r by (simp add: suffix_join_Cons tail_slice_suffix)
    ultimately show ?thesis by (rule suffix_order.trans [rotated])
  qed
qed

lemma group_loop_close:
  assumes "cur \<noteq> []" and "chunk_size_chars e < len + 2 + int (length part)"
    and "get_overlap_parts e cur = (ov, n)"
  shows "group_loop e (part # rest) (groups, cur, len) =
           group_loop e rest (groups @ [cur], ov @ [part], n + 2 + int (length part))"
  using assms by (simp add: Let_def)

lemma group_loop_extend:
  assumes "cur \<noteq> []" and "\<not> chunk_size_chars e < len + 2 + int (length part)"
  shows "group_loop e (part # rest) (groups, cur, len) =
           group_loop e rest (groups, cur @ [part], len + 2 + int (length part))"
  using assms by (simp add: Let_def)

lemma group_loop_first:
  "group_loop e (part # rest) (groups, [], len) =
     group_loop e rest (groups, [part], len + int (length part))"
  by (simp add: Let_def)

lemma combine_loop_close:
  assumes "cur \<noteq> []" and "chunk_size_chars e < len + 2 + int (length part)"
    and "get_overlap_parts e cur = (ov, n)"
  shows "combine_loop e (part # rest) (chunks, cur, len) =
           combine_loop e rest (chunks @ [join SEP cur], ov @ [part], n + 2 + int (length part))"
  using assms by (simp add: Let_def)

lemma combine_loop_extend:
  assumes "cur \<noteq> []" and "\<not> chunk_size_chars e < len + 2 + int (length part)"
  shows "combine_loop e (part # rest) (chunks, cur, len) =
           combine_loop e rest (chunks, cur @ [part], len + 2 + int (length part))"
  using assms by (simp add: Let_def)

lemma combine_loop_first:
  "combine_loop e (part # rest) (chunks, [], len) =
     combine_loop e rest (chunks, [part], len + int (length part))"
  by (simp add: Let_def)

lemma group_loop_texts:
  "combine_loop e parts (map (join SEP) groups, cur, len) =
     (case group_loop e parts (groups, cur, len) of
        (groups', cur', len') \<Rightarrow> (map (join SEP) groups', cur', len'))"
proof (induction parts arbitrary: groups cur len)
  case Nil
  show ?case by simp
next
  case (Cons part rest)
  show ?case
  proof (cases "cur = []")
    case True
    show ?thesis
      unfolding True combine_loop_first group_loop_first by (rule Cons.IH)
  next
    case ne: False
    show ?thesis
    proof (cases "chunk_size_chars e < len + 2 + int (length part)")
      case True
      obtain ov n where ov: "get_overlap_parts e cur = (ov, n)"
        by (cases "get_overlap_parts e cur")
      have "combine_loop e rest (map (join SEP) (groups @ [cur]), ov @ [part], n + 2 + int (length part)) =
            (case group_loop e rest (groups @ [cur], ov @ [part], n + 2 + int (length part)) of
               (groups', cur', len') \<Rightarrow> (map (join SEP) groups', cur', len'))"
        by (rule Cons.IH)
      then show ?thesis
        unfolding combine_loop_close [OF ne True ov] group_loop_close [OF ne True ov] by simp
    next
      case False
      show ?thesis
        unfolding combine_loop_extend [OF ne False] group_loop_extend [OF ne False]
        by (rule Cons.IH)
    qed
  qed
qed

lemma combine_with_overlap_groups:
  "combine_with_overlap e parts = map (join SEP) (combine_groups e parts)"
proof -
  obtain groups cur len where g: "group_loop e parts ([], [], 0) = (groups, cur, len)"
    by (cases "group_loop e parts ([], [], 0)")
  have "combine_loop e parts (map (join SEP) [], [], 0) = (map (join SEP) groups, cur, len)"
    unfolding group_loop_texts g by simp
  then have c: "combine_loop e parts ([], [], 0) = (map (join SEP) groups, cur, len)"
    by simp
  show ?thesis
    by (simp add: combine_with_overlap_def combine_groups_def g c)
qed

lemma carried_snoc:
  assumes "carried e g cur"
  shows "carried e g (cur @ [part])"
proof -
  from assms obtain r where r: "r \<noteq> []" "cur = fst (get_overlap_parts e g) @ r"
    unfolding carried_def by (elim exE conjE)
  have "r @ [part] \<noteq> [] \<and> cur @ [part] = fst (get_overlap_parts e g) @ (r @ [part])"
    using r(2) by simp
  then show ?thesis
    unfolding carried_def by (rule exI)
qed

lemma carried_seed: "carried e cur (fst (get_overlap_parts e cur) @ [part])"
proof -
  have "[part] \<noteq> [] \<and> fst (get_overlap_parts e cur) @ [part] = fst (get_overlap_parts e cur) @ [part]"
    by simp
  then show ?thesis
    unfolding carried_def by (rule exI)
qed

lemma group_loop_carried:
  assumes "successively (carried e) groups"
    and "groups \<noteq> [] \<longrightarrow> carried e (last groups) cur"
    and "group_loop e parts (groups, cur, len) = (groups', cur', len')"
    and "parts \<noteq> [] \<or> cur \<noteq> []"
  shows "successively (carried e) groups' \<and> (groups' \<noteq> [] \<longrightarrow> carried e (last groups') cur')
         \<and> cur' \<noteq> []"
  using assms
proof (induction parts arbitrary: groups cur len)
  case Nil
  then show ?case by simp
next
  case (Cons part rest)
  show ?case
  proof (cases "cur = []")
    case True
    have eq: "group_loop e rest (groups, [part], len + int (length part)) = (groups', cur', len')"
      using Cons.prems(3) unfolding True group_loop_first .
    have l: "groups \<noteq> [] \<longrightarrow> carried e (last groups) [part]"
      using Cons.prems(2) carried_snoc [of e "last groups" "[]" part] unfolding True by simp
    have n: "rest \<noteq> [] \<or> [part] \<noteq> []" by simp
    show ?thesis by (rule Cons.IH [OF Cons.prems(1) l eq n])
  next
    case ne: False
    show ?thesis
    proof (cases "chunk_size_chars e < len + 2 + int (length part)")
      case True
      obtain ov n where ov: "get_overlap_parts e cur = (ov, n)"
        by (cases "get_overlap_parts e cur")
      have eq: "group_loop e rest (groups @ [cur], ov @ [part], n + 2 + int (length part))
                  = (groups', cur', len')"
        using Cons.prems(3) unfolding group_loop_close [OF ne True ov] .
      have s: "successively (carried e) (groups @ [cur])"
      proof (cases "groups = []")
        case True
        then show ?thesis by simp
      next
        case False
        with Cons.prems(2) have "carried e (last groups) cur" by blast
        with Cons.prems(1) False show ?thesis
          by (simp add: successively_append_iff)
      qed
      have l: "groups @ [cur] \<noteq> [] \<longrightarrow> carried e (last (groups @ [cur])) (ov @ [part])"
        using carried_seed [of e cur part] by (simp add: ov)
      have n: "rest \<noteq> [] \<or> ov @ [part] \<noteq> []" by simp
      show ?thesis by (rule Cons.IH [OF s l eq n])
    next
      case False
      have eq: "group_loop e rest (groups, cur @ [part], len + 2 + int (length part))
                  = (groups', cur', len')"
        using Cons.prems(3) unfolding group_loop_extend [OF ne False] .
      have l: "groups \<noteq> [] \<longrightarrow> carried e (last groups) (cur @ [part])"
        using Cons.prems(2) carried_snoc [of e "last groups" cur part] by blast
      have n: "rest \<noteq> [] \<or> cur @ [part] \<noteq> []" by simp
      show ?thesis by (rule Cons.IH [OF Cons.prems(1) l eq n])
    qed
  qed
qed

lemma combine_groups_carried: "successively (carried e) (combine_groups e parts)"
proof (cases "parts = []")
  case True
  then show ?thesis by (simp add: combine_groups_def)
next
  case False
  obtain groups cur len where g: "group_loop e parts ([], [], 0) = (groups, cur, len)"
    by (cases "group_loop e parts ([], [], 0)")
  have a: "successively (carried e) []" and b: "([]::string list list) \<noteq> [] \<longrightarrow> carried e (last []) []"
    by simp_all
  have c: "parts \<noteq> [] \<or> ([]::string list) \<noteq> []"
    using False by simp
  note r = group_loop_carried [OF a b g c]
  have A: "successively (carried e) groups" using r by (rule conjunct1)
  have B: "groups \<noteq> [] \<longrightarrow> carried e (last groups) cur" using r by (rule conjunct1 [OF conjunct2])
  have C: "cur \<noteq> []" using r by (rule conjunct2 [OF conjunct2])
  have "successively (carried e) (groups @ [cur])"
  proof (cases "groups = []")
    case True
    then show ?thesis by simp
  next
    case False
    with B have "carried e (last groups) cur" by blast
    with A False show ?thesis by (simp add: successively_append_iff)
  qed
  then show ?thesis
    using False C by (simp add: combine_groups_def g)
qed

lemma section_chunks_oversized:
  assumes "\<not> section_is_table s" and "chunk_size_chars e < int (length (ParsedSection.content s))"
  shows "section_chunks e s =
           map (join SEP) (combine_groups e
             (process_paragraphs e (split_at_paragraphs (ParsedSection.content s)) []))"
  using assms
  by (simp add: section_chunks_def chunk_section_def Let_def combine_with_overlap_groups)

lemma overlap_empty_or_within:
  "fst (get_overlap_parts e parts) = []
   \<or> int (length (join SEP (fst (get_overlap_parts e parts)))) \<le> chunk_overlap_chars e"
  using get_overlap_parts_shape [of parts e] by auto

lemma carried_within_budget:
  "successively
           (\<lambda>g g'. (\<exists>rest. rest \<noteq> [] \<and> g' = fst (get_overlap_parts e g) @ rest)
                  \<and> (fst (get_overlap_parts e g) = []
                     \<or> int (length (join SEP (fst (get_overlap_parts e g)))) \<le> chunk_overlap_chars e)
                  \<and> (0 \<le> chunk_overlap_chars e \<longrightarrow>
                       int (length (join SEP (fst (get_overlap_parts e g)))) \<le> chunk_overlap_chars e)
                  \<and> suffix (join SEP (fst (get_overlap_parts e g))) (join SEP g))
           (combine_groups e parts)"
proof (rule successively_mono [OF combine_groups_carried])
  fix g g'
  assume "carried e g g'"
  then have "\<exists>rest. rest \<noteq> [] \<and> g' = fst (get_overlap_parts e g) @ rest"
    unfolding carried_def .
  moreover have "0 \<le> chunk_overlap_chars e \<longrightarrow>
      int (length (join SEP (fst (get_overlap_parts e g)))) \<le> chunk_overlap_chars e"
    using overlap_within_chars [of e g] by blast
  ultimately
  show "(\<exists>rest. rest \<noteq> [] \<and> g' = fst (get_overlap_parts e g) @ rest)
        \<and> (fst (get_overlap_parts e g) = []
           \<or> int (length (join SEP (fst (get_overlap_parts e g)))) \<le> chunk_overlap_chars e)
        \<and> (0 \<le> chunk_overlap_chars e \<longrightarrow>
             int (length (join SEP (fst (get_overlap_parts e g)))) \<le> chunk_overlap_chars e)
        \<and> suffix (join SEP (fst (get_overlap_parts e g))) (join SEP g)"
    using overlap_empty_or_within [of e g] overlap_is_tail [of e g]
    by (intro conjI)
qed

lemma negative_overlap_facts:
  "\<not> section_is_table two_paragraphs"
  "chunk_size_chars negative_overlap_engine < int (length (ParsedSection.content two_paragraphs))"
  "chunk_overlap_chars negative_overlap_engine = - 4"
  by (simp_all add: negative_overlap_engine_def ChunkingEngine_init_def section_is_table_def
        two_paragraphs_def)

lemma negative_overlap_parts:
  "process_paragraphs negative_overlap_engine
     (split_at_paragraphs (ParsedSection.content two_paragraphs)) []
     = [''aaaaaa'', ''bbbbbbbb'']"
  by code_simp

lemma negative_overlap_groups:
  "combine_groups negative_overlap_engine [''aaaaaa'', ''bbbbbbbb'']
     = [[''aaaaaa''], [''bbbbbbbb'']]"
  by code_simp

lemma negative_overlap_nothing:
  "get_overlap_parts negative_overlap_engine [''aaaaaa''] = ([], 0)"
  by code_simp

text \<open>
  C4 as stated: the overlap text has at most \<open>chunk_overlap_chars\<close> characters. The
  constructor accepts a negative overlap size. With chunks of 8 characters and an overlap of
  \<open>- 4\<close>, the section of two paragraphs of 6 and 8 characters is not a table, is longer than
  the chunk size and is split into two chunks; the overlap taken from the first chunk is
  empty, and its length 0 is not at most \<open>- 4\<close>.
\<close>

theorem negative_overlap_counterexample:
  "\<not> section_is_table two_paragraphs
   \<and> chunk_size_chars negative_overlap_engine
       < int (length (ParsedSection.content two_paragraphs))
   \<and> section_chunks negative_overlap_engine two_paragraphs = [''aaaaaa'', ''bbbbbbbb'']
   \<and> combine_groups negative_overlap_engine
        (process_paragraphs negative_overlap_engine
           (split_at_paragraphs (ParsedSection.content two_paragraphs)) [])
       = [[''aaaaaa''], [''bbbbbbbb'']]
   \<and> fst (get_overlap_parts negative_overlap_engine [''aaaaaa'']) = []
   \<and> \<not> int (length (join SEP (fst (get_overlap_parts negative_overlap_engine [''aaaaaa'']))))
         \<le> chunk_overlap_chars negative_overlap_engine"
proof -
  have c: "section_chunks negative_overlap_engine two_paragraphs = [''aaaaaa'', ''bbbbbbbb'']"
    by (simp add: section_chunks_oversized [OF negative_overlap_facts(1,2)]
          negative_overlap_parts negative_overlap_groups)
  have g: "combine_groups negative_overlap_engine
        (process_paragraphs negative_overlap_engine
           (split_at_paragraphs (ParsedSection.content two_paragraphs)) [])
       = [[''aaaaaa''], [''bbbbbbbb'']]"
    by (simp only: negative_overlap_parts negative_overlap_groups)
  have o: "fst (get_overlap_parts negative_overlap_engine [''aaaaaa'']) = []"
    by (simp add: negative_overlap_nothing)
  have n: "\<not> int (length (join SEP (fst (get_overlap_parts negative_overlap_engine [''aaaaaa'']))))
         \<le> chunk_overlap_chars negative_overlap_engine"
    by (simp add: negative_overlap_nothing negative_overlap_facts(3))
  from negative_overlap_facts(1,2) c g o n show ?thesis by (intro conjI)
qed

text \<open>
  C4 as amended. Take a section that is not a table and is longer than the chunk size. Its
  chunks are the joins of the part lists of \<open>combine_groups\<close>, and for every chunk and the
  one after it: the next chunk's parts are the overlap parts taken from the first chunk
  followed by at least one new part; the overlap text, the join of the overlap parts, is
  empty or has at most \<open>chunk_overlap_chars\<close> characters, so it has at most
  \<open>chunk_overlap_chars\<close> characters whenever that size is not negative; and it is a tail of
  the first chunk's text. Moreover the overlap parts of any part list are its last \<open>k\<close>
  parts whole, where the joined text of these stays within the size and the part before
  them, if there is one, would exceed it. Nothing comes before them when no part is left, or
  no size remains once two characters are charged after each whole part, or the part before
  them is empty; otherwise the trailing slice of the part before them comes first, and
  brings the overlap text to exactly \<open>chunk_overlap_chars\<close> characters.
\<close>

theorem overlap_within_budget:
  assumes "\<not> section_is_table s"
    and "chunk_size_chars e < int (length (ParsedSection.content s))"
  shows "section_chunks e s =
           map (join SEP) (combine_groups e
             (process_paragraphs e (split_at_paragraphs (ParsedSection.content s)) []))
       \<and> successively
           (\<lambda>g g'. (\<exists>rest. rest \<noteq> [] \<and> g' = fst (get_overlap_parts e g) @ rest)
                  \<and> (fst (get_overlap_parts e g) = []
                     \<or> int (length (join SEP (fst (get_overlap_parts e g)))) \<le> chunk_overlap_chars e)
                  \<and> (0 \<le> chunk_overlap_chars e \<longrightarrow>
                       int (length (join SEP (fst (get_overlap_parts e g)))) \<le> chunk_overlap_chars e)
                  \<and> suffix (join SEP (fst (get_overlap_parts e g))) (join SEP g))
           (combine_groups e
             (process_paragraphs e (split_at_paragraphs (ParsedSection.content s)) []))
       \<and> (\<forall>parts. \<exists>k\<le>length parts.
             (drop (length parts - k) parts = []
                \<or> int (length (join SEP (drop (length parts - k) parts))) \<le> chunk_overlap_chars e)
           \<and> (k < length parts \<longrightarrow>
                chunk_overlap_chars e
                  < int (length (join SEP (parts ! (length parts - Suc k) # drop (length parts - k) parts))))
           \<and> ((k = length parts
                 \<or> chunk_overlap_chars e \<le> cost (drop (length parts - k) parts)
                 \<or> parts ! (length parts - Suc k) = [])
               \<and> fst (get_overlap_parts e parts) = drop (length parts - k) parts
              \<or> k < length parts
               \<and> cost (drop (length parts - k) parts) < chunk_overlap_chars e
               \<and> fst (get_overlap_parts e parts) =
                   tail_slice (parts ! (length parts - Suc k))
                     (chunk_overlap_chars e - cost (drop (length parts - k) parts))
                   # drop (length parts - k) parts
               \<and> int (length (join SEP (fst (get_overlap_parts e parts)))) = chunk_overlap_chars e))"
proof (intro conjI allI)
  show "section_chunks e s =
           map (join SEP) (combine_groups e
             (process_paragraphs e (split_at_paragraphs (ParsedSection.content s)) []))"
    using assms by (rule section_chunks_oversized)
next
  show "successively
           (\<lambda>g g'. (\<exists>rest. rest \<noteq> [] \<and> g' = fst (get_overlap_parts e g) @ rest)
                  \<and> (fst (get_overlap_parts e g) = []
                     \<or> int (length (join SEP (fst (get_overlap_parts e g)))) \<le> chunk_overlap_chars e)
                  \<and> (0 \<le> chunk_overlap_chars e \<longrightarrow>
                       int (length (join SEP (fst (get_overlap_parts e g)))) \<le> chunk_overlap_chars e)
                  \<and> suffix (join SEP (fst (get_overlap_parts e g))) (join SEP g))
           (combine_groups e
             (process_paragraphs e (split_at_paragraphs (ParsedSection.content s)) []))"
    by (rule carried_within_budget)
next
  fix parts
  show "\<exists>k\<le>length parts.
             (drop (length parts - k) parts = []
                \<or> int (length (join SEP (drop (length parts - k) parts))) \<le> chunk_overlap_chars e)
           \<and> (k < length parts \<longrightarrow>
                chunk_overlap_chars e
                  < int (length (join SEP (parts ! (length parts - Suc k) # drop (length parts - k) parts))))
           \<and> ((k = length parts
                 \<or> chunk_overlap_chars e \<le> cost (drop (length parts - k) parts)
                 \<or> parts ! (length parts - Suc k) = [])
               \<and> fst (get_overlap_parts e parts) = drop (length parts - k) parts
              \<or> k < length parts
               \<and> cost (drop (length parts - k) parts) < chunk_overlap_chars e
               \<and> fst (get_overlap_parts e parts) =
                   tail_slice (parts ! (length parts - Suc k))
                     (chunk_overlap_chars e - cost (drop (length parts - k) parts))
                   # drop (length parts - k) parts
               \<and> int (length (join SEP (fst (get_overlap_parts e parts)))) = chunk_overlap_chars e)"
    by (rule get_overlap_parts_shape)
qed

lemma two_paragraphs_parts:
  "process_paragraphs tiny_engine (split_at_paragraphs (ParsedSection.content two_paragraphs)) []
     = [''aaaaaa'', ''bbbbbbbb'']"
  by code_simp

lemma one_long_word_parts:
  "process_paragraphs tiny_engine (split_at_paragraphs (ParsedSection.content one_long_word)) []
     = [''abcdefghijkl'']"
  by code_simp

lemma two_paragraphs_groups:
  "combine_groups tiny_engine [''aaaaaa'', ''bbbbbbbb''] = [[''aaaaaa''], [''aaaa'', ''bbbbbbbb'']]"
  by code_simp

lemma two_paragraphs_facts:
  "0 \<le> chunk_overlap_chars tiny_engine"
  "\<not> section_is_table two_paragraphs"
  "chunk_size_chars tiny_engine < int (length (ParsedSection.content two_paragraphs))"
  by (simp_all add: tiny_engine_def ChunkingEngine_init_def section_is_table_def two_paragraphs_def)

text \<open>
  The theorem at an engine with chunks of 8 characters and an overlap of 4, and a section of
  two paragraphs of 6 and 8 characters: the second chunk begins with the last 4 characters of
  the first.
\<close>

theorem overlap_within_budget_witness:
  "0 \<le> chunk_overlap_chars tiny_engine
   \<and> \<not> section_is_table two_paragraphs
   \<and> chunk_size_chars tiny_engine < int (length (ParsedSection.content two_paragraphs))
   \<and> section_chunks tiny_engine two_paragraphs = [''aaaaaa'', ''aaaa'' @ SEP @ ''bbbbbbbb'']
   \<and> successively
           (\<lambda>g g'. (\<exists>rest. rest \<noteq> [] \<and> g' = fst (get_overlap_parts tiny_engine g) @ rest)
                  \<and> (fst (get_overlap_parts tiny_engine g) = []
                     \<or> int (length (join SEP (fst (get_overlap_parts tiny_engine g))))
                         \<le> chunk_overlap_chars tiny_engine)
                  \<and> (0 \<le> chunk_overlap_chars tiny_engine \<longrightarrow>
                       int (length (join SEP (fst (get_overlap_parts tiny_engine g))))
                         \<le> chunk_overlap_chars tiny_engine)
                  \<and> suffix (join SEP (fst (get_overlap_parts tiny_engine g))) (join SEP g))
           [[''aaaaaa''], [''aaaa'', ''bbbbbbbb'']]"
proof -
  note t = overlap_within_budget [OF two_paragraphs_facts(2,3), unfolded two_paragraphs_parts two_paragraphs_groups]
  have a: "section_chunks tiny_engine two_paragraphs = [''aaaaaa'', ''aaaa'' @ SEP @ ''bbbbbbbb'']"
    using t by simp
  have b: "successively
           (\<lambda>g g'. (\<exists>rest. rest \<noteq> [] \<and> g' = fst (get_overlap_parts tiny_engine g) @ rest)
                  \<and> (fst (get_overlap_parts tiny_engine g) = []
                     \<or> int (length (join SEP (fst (get_overlap_parts tiny_engine g))))
                         \<le> chunk_overlap_chars tiny_engine)
                  \<and> (0 \<le> chunk_overlap_chars tiny_engine \<longrightarrow>
                       int (length (join SEP (fst (get_overlap_parts tiny_engine g))))
                         \<le> chunk_overlap_chars tiny_engine)
                  \<and> suffix (join SEP (fst (get_overlap_parts tiny_engine g))) (join SEP g))
           [[''aaaaaa''], [''aaaa'', ''bbbbbbbb'']]"
    using t by (rule conjunct1 [OF conjunct2])
  from two_paragraphs_facts a b show ?thesis by (intro conjI)
qed

section \<open>The chunk size is a target\<close>

lemma one_long_word_facts:
  "\<not> section_is_table one_long_word"
  "chunk_size_chars tiny_engine < int (length (ParsedSection.content one_long_word))"
  "ParsedSection.content one_long_word = ''abcdefghijkl''"
  by (simp_all add: tiny_engine_def ChunkingEngine_init_def section_is_table_def one_long_word_def)

lemma one_long_word_chunks:
  "section_chunks tiny_engine one_long_word = [''abcdefghijkl'']"
proof -
  have "combine_groups tiny_engine [''abcdefghijkl''] = [[''abcdefghijkl'']]"
    by code_simp
  then show ?thesis
    by (simp add: section_chunks_oversized [OF one_long_word_facts(1,2)] one_long_word_parts)
qed

lemma two_paragraphs_chunks:
  "section_chunks tiny_engine two_paragraphs = [''aaaaaa'', ''aaaa'' @ SEP @ ''bbbbbbbb'']"
  by (simp add: section_chunks_oversized [OF two_paragraphs_facts(2,3)] two_paragraphs_parts
        two_paragraphs_groups)

text \<open>
  C10. The chunk size is not an upper bound on the length of a chunk body. A section of one
  word of 12 characters, under a chunk size of 8, is not a table, is longer than the chunk
  size, splits into the single part of 12 characters, and \<open>chunk_document\<close> emits it as one
  chunk whose body has the 12 characters. The loop never splits a part: with no current parts
  it takes the next part whole, whatever its length. And when the loop closes a chunk, it
  puts the next part after the overlap parts without comparing the length of the new chunk
  with the chunk size: two paragraphs of 6 and 8 characters, each within the chunk size of
  8, give a second chunk of 14 characters.
\<close>

theorem chunk_size_is_a_target:
  "(\<not> section_is_table one_long_word
    \<and> chunk_size_chars tiny_engine < int (length (ParsedSection.content one_long_word))
    \<and> process_paragraphs tiny_engine
         (split_at_paragraphs (ParsedSection.content one_long_word)) []
        = [ParsedSection.content one_long_word]
    \<and> map Chunk.content (chunk_document tiny_engine zero_ids [one_long_word] ''doc_1'' ''a.txt'')
        = [context_prefix one_long_word ''a.txt'' @ [newline] @ ''abcdefghijkl'']
    \<and> chunk_size_chars tiny_engine < int (length ''abcdefghijkl''))
   \<and> combine_loop e (part # rest) (chunks, [], len)
        = combine_loop e rest (chunks, [part], len + int (length part))
   \<and> (cur \<noteq> [] \<and> chunk_size_chars e < len + 2 + int (length part) \<longrightarrow>
        combine_loop e (part # rest) (chunks, cur, len)
          = combine_loop e rest
              (chunks @ [join SEP cur], fst (get_overlap_parts e cur) @ [part],
               snd (get_overlap_parts e cur) + 2 + int (length part)))
   \<and> (section_chunks tiny_engine two_paragraphs = [''aaaaaa'', ''aaaa'' @ SEP @ ''bbbbbbbb'']
      \<and> int (length ''aaaaaa'') \<le> chunk_size_chars tiny_engine
      \<and> int (length ''bbbbbbbb'') \<le> chunk_size_chars tiny_engine
      \<and> chunk_size_chars tiny_engine < int (length (''aaaa'' @ SEP @ ''bbbbbbbb'')))"
proof (intro conjI impI)
  show "map Chunk.content (chunk_document tiny_engine zero_ids [one_long_word] ''doc_1'' ''a.txt'')
        = [context_prefix one_long_word ''a.txt'' @ [newline] @ ''abcdefghijkl'']"
    by (simp add: chunk_document_built built_document_Cons built_chunks_Cons one_long_word_chunks
          add_context_prefix_def)
next
  assume "cur \<noteq> [] \<and> chunk_size_chars e < len + 2 + int (length part)"
  then show "combine_loop e (part # rest) (chunks, cur, len)
          = combine_loop e rest
              (chunks @ [join SEP cur], fst (get_overlap_parts e cur) @ [part],
               snd (get_overlap_parts e cur) + 2 + int (length part))"
    using combine_loop_close [of cur e len part "fst (get_overlap_parts e cur)" "snd (get_overlap_parts e cur)"]
    by simp
next
  show "combine_loop e (part # rest) (chunks, [], len)
        = combine_loop e rest (chunks, [part], len + int (length part))"
    by (rule combine_loop_first)
next
  show "section_chunks tiny_engine two_paragraphs = [''aaaaaa'', ''aaaa'' @ SEP @ ''bbbbbbbb'']"
    by (rule two_paragraphs_chunks)
next
  show "process_paragraphs tiny_engine
         (split_at_paragraphs (ParsedSection.content one_long_word)) []
        = [ParsedSection.content one_long_word]"
    unfolding one_long_word_parts by (simp add: one_long_word_facts(3))
qed (simp_all add: one_long_word_facts one_long_word_parts tiny_engine_def ChunkingEngine_init_def SEP_def)

theorem chunk_size_is_a_target_witness:
  "[''aaaaaa''] \<noteq> []
   \<and> chunk_size_chars tiny_engine < 6 + 2 + int (length ''bbbbbbbb'')
   \<and> combine_loop tiny_engine [''bbbbbbbb''] ([], [''aaaaaa''], 6)
       = ([''aaaaaa''], [''aaaa'', ''bbbbbbbb''], 14)"
proof -
  have h: "[''aaaaaa''] \<noteq> [] \<and> chunk_size_chars tiny_engine < 6 + 2 + int (length ''bbbbbbbb'')"
    by (simp add: tiny_engine_def ChunkingEngine_init_def)
  have o: "get_overlap_parts tiny_engine [''aaaaaa''] = ([''aaaa''], 4)"
    by code_simp
  from chunk_size_is_a_target [of tiny_engine "''bbbbbbbb''" "[]" "[]" 6 "[''aaaaaa'']"] h
  have "combine_loop tiny_engine [''bbbbbbbb''] ([], [''aaaaaa''], 6)
          = combine_loop tiny_engine []
              ([] @ [join SEP [''aaaaaa'']], fst (get_overlap_parts tiny_engine [''aaaaaa'']) @ [''bbbbbbbb''],
               snd (get_overlap_parts tiny_engine [''aaaaaa'']) + 2 + int (length ''bbbbbbbb''))"
    by blast
  then have "combine_loop tiny_engine [''bbbbbbbb''] ([], [''aaaaaa''], 6)
       = ([''aaaaaa''], [''aaaa'', ''bbbbbbbb''], 14)"
    unfolding o by simp
  with h show ?thesis by blast
qed

section \<open>The processor: unsupported file types\<close>

text \<open>
  C7. If the extension of the file name, that is its suffix in lower case without the
  leading dots, is not one of pdf, docx, csv, txt, md, then \<open>process_document\<close> returns the
  error result with the message \<open>Unsupported file type: .\<close> followed by the extension, and
  records the same in the status dictionary; the list of calls to the services is what it
  was, so neither \<open>delete_document_chunks\<close> nor the parser nor any other service is called;
  and nothing is raised: the call returns (\<open>Inr\<close>).
\<close>

theorem unsupported_extension:
  assumes "lstrip_dots (lower (path_suffix proc filename)) \<notin> ALLOWED_EXTENSIONS"
  shows "process_document proc file_path project_id doc_id filename st =
           (Inr \<lparr>ProcessingResult.document_id = doc_id,
                 status = ''error'',
                 chunk_count = 0,
                 error_message =
                   Some (''Unsupported file type: .''
                         @ lstrip_dots (lower (path_suffix proc filename)))\<rparr>,
            st\<lparr>processing_status := (processing_status st)(doc_id \<mapsto>
                 \<lparr>DocumentStatusResponse.document_id = doc_id,
                  status = ''error'',
                  chunk_count = 0,
                  error_message =
                    Some (''Unsupported file type: .''
                          @ lstrip_dots (lower (path_suffix proc filename)))\<rparr>)\<rparr>)
       \<and> calls (snd (process_document proc file_path project_id doc_id filename st)) = calls st"
  using assms
  by (simp add: process_document_def process_document_body_def Let_def error_result_def
        update_status_def)

lemma exe_ext: "lstrip_dots (lower (path_suffix demo_processor ''setup.EXE'')) = ''exe''"
  by code_simp

theorem unsupported_extension_witness:
  "lstrip_dots (lower (path_suffix demo_processor ''setup.EXE'')) \<notin> ALLOWED_EXTENSIONS
   \<and> fst (process_document demo_processor ''/tmp/setup.EXE'' ''proj_1'' ''doc_1'' ''setup.EXE''
            fresh_state)
       = Inr \<lparr>ProcessingResult.document_id = ''doc_1'', status = ''error'', chunk_count = 0,
              error_message = Some ''Unsupported file type: .exe''\<rparr>
   \<and> calls (snd (process_document demo_processor ''/tmp/setup.EXE'' ''proj_1'' ''doc_1''
                   ''setup.EXE'' fresh_state)) = []"
proof -
  have h: "lstrip_dots (lower (path_suffix demo_processor ''setup.EXE'')) \<notin> ALLOWED_EXTENSIONS"
    unfolding exe_ext by (simp add: ALLOWED_EXTENSIONS_def)
  from unsupported_extension [OF h, of "''/tmp/setup.EXE''" "''proj_1''" "''doc_1''" fresh_state] h
  show ?thesis
    unfolding exe_ext by (simp add: fresh_state_def)
qed

section \<open>The processor: the store stage\<close>

lemma store_stage:
  assumes "lstrip_dots (lower (path_suffix proc filename)) \<in> ALLOWED_EXTENSIONS"
    and "vector_store_delete_document_chunks proc project_id doc_id = Inr deleted"
    and "parser_parse proc file_path (lstrip_dots (lower (path_suffix proc filename))) = Inr sections"
    and "sections \<noteq> []"
    and "chunker_chunk_document proc sections doc_id filename = Inr chunks"
    and "chunks \<noteq> []"
    and "embedder_embed_batch proc (map Chunk.content chunks) 32 = Inr embeddings"
    and "length embeddings = length chunks"
  shows "process_document_body proc file_path project_id doc_id filename st =
     (let st = update_status doc_id ''processing'' 0 None st;
          st = called (DeleteDocumentChunks project_id doc_id) st;
          st = called (Parse file_path (lstrip_dots (lower (path_suffix proc filename)))) st;
          st = called (ChunkDocument sections doc_id filename) st;
          st = called (EmbedBatch (map Chunk.content chunks) 32) st;
          st = called (UpsertChunks project_id chunks embeddings) st
      in case vector_store_upsert_chunks proc project_id chunks embeddings of
           Inl ex \<Rightarrow> (Inl ex, st)
         | Inr upserted \<Rightarrow>
             if upserted = 0
             then (let (r, st) = error_result doc_id ''Failed to store vectors in Qdrant'' st
                   in (Inr r, st))
             else
               (let st = update_status doc_id ''ready'' upserted None st
                in (Inr \<lparr>ProcessingResult.document_id = doc_id,
                         status = ''ready'',
                         chunk_count = upserted,
                         error_message = None\<rparr>, st)))"
  using assms
  by (simp add: process_document_body_def Let_def delete_document_def)

text \<open>
  C8 as amended. When the run reaches the store stage and the store returns a count, the
  run ends in error with the message \<open>Failed to store vectors in Qdrant\<close> if the count is
  0, and otherwise with the status ready and that count as \<open>chunk_count\<close>; the entry of the
  document in the status dictionary says the same.
\<close>

theorem store_stage_outcome:
  assumes "lstrip_dots (lower (path_suffix proc filename)) \<in> ALLOWED_EXTENSIONS"
    and "vector_store_delete_document_chunks proc project_id doc_id = Inr deleted"
    and "parser_parse proc file_path (lstrip_dots (lower (path_suffix proc filename))) = Inr sections"
    and "sections \<noteq> []"
    and "chunker_chunk_document proc sections doc_id filename = Inr chunks"
    and "chunks \<noteq> []"
    and "embedder_embed_batch proc (map Chunk.content chunks) 32 = Inr embeddings"
    and "length embeddings = length chunks"
    and "vector_store_upsert_chunks proc project_id chunks embeddings = Inr upserted"
  shows "fst (process_document proc file_path project_id doc_id filename st) =
           Inr (if upserted = 0
                then \<lparr>ProcessingResult.document_id = doc_id, status = ''error'', chunk_count = 0,
                      error_message = Some ''Failed to store vectors in Qdrant''\<rparr>
                else \<lparr>ProcessingResult.document_id = doc_id, status = ''ready'',
                      chunk_count = upserted, error_message = None\<rparr>)
       \<and> processing_status (snd (process_document proc file_path project_id doc_id filename st))
           doc_id =
           Some (if upserted = 0
                 then \<lparr>DocumentStatusResponse.document_id = doc_id, status = ''error'',
                       chunk_count = 0,
                       error_message = Some ''Failed to store vectors in Qdrant''\<rparr>
                 else \<lparr>DocumentStatusResponse.document_id = doc_id, status = ''ready'',
                       chunk_count = upserted, error_message = None\<rparr>)"
  unfolding process_document_def store_stage [OF assms(1-8)]
  by (simp add: assms(9) Let_def error_result_def update_status_def called_def)

lemma notes_ext: "lstrip_dots (lower (path_suffix demo_processor ''notes.txt'')) = ''txt''"
  by code_simp

lemma short_section_chunks:
  "section_chunks default_engine short_section = [''First section content here.'']"
  by (simp add: section_chunks_def section_is_table_def chunk_section_def short_section_def
        default_engine_def ChunkingEngine_init_def)

lemma length_chunk_document_single:
  "length (chunk_document e uuid4 [s] doc_id doc_name) = length (section_chunks e s)"
  by (simp add: chunk_document_built built_document_Cons)

lemma length_notes_chunks: "length notes_chunks = 1"
  by (simp add: notes_chunks_def length_chunk_document_single short_section_chunks)

lemma notes_chunks_nonempty: "notes_chunks \<noteq> []"
  using length_notes_chunks by auto

lemma notes_allowed:
  "lstrip_dots (lower (path_suffix demo_processor ''notes.txt'')) \<in> ALLOWED_EXTENSIONS"
  unfolding notes_ext by (simp add: ALLOWED_EXTENSIONS_def)

lemma no_store_suffix: "path_suffix no_store_processor = path_suffix demo_processor"
  by (simp add: no_store_processor_def)

text \<open>
  C8 as stated gives the message as \<open>Failed to store vectors\<close>. With a store that returns
  0 the run ends in error and the message is \<open>Failed to store vectors in Qdrant\<close>.
\<close>

theorem store_message_counterexample:
  "vector_store_upsert_chunks no_store_processor ''proj_1'' notes_chunks
       (map length (map Chunk.content notes_chunks)) = Inr 0
   \<and> fst (process_document no_store_processor ''/tmp/notes.txt'' ''proj_1'' ''doc_1''
            ''notes.txt'' fresh_state)
       = Inr \<lparr>ProcessingResult.document_id = ''doc_1'', status = ''error'', chunk_count = 0,
              error_message = Some ''Failed to store vectors in Qdrant''\<rparr>
   \<and> fst (process_document no_store_processor ''/tmp/notes.txt'' ''proj_1'' ''doc_1''
            ''notes.txt'' fresh_state)
       \<noteq> Inr \<lparr>ProcessingResult.document_id = ''doc_1'', status = ''error'', chunk_count = 0,
              error_message = Some ''Failed to store vectors''\<rparr>"
proof -
  have body: "process_document_body no_store_processor ''/tmp/notes.txt'' ''proj_1'' ''doc_1''
                ''notes.txt'' fresh_state =
     (let st = update_status ''doc_1'' ''processing'' 0 None fresh_state;
          st = called (DeleteDocumentChunks ''proj_1'' ''doc_1'') st;
          st = called (Parse ''/tmp/notes.txt''
                 (lstrip_dots (lower (path_suffix no_store_processor ''notes.txt'')))) st;
          st = called (ChunkDocument [short_section] ''doc_1'' ''notes.txt'') st;
          st = called (EmbedBatch (map Chunk.content notes_chunks) 32) st;
          st = called (UpsertChunks ''proj_1'' notes_chunks
                 (map length (map Chunk.content notes_chunks))) st
      in case vector_store_upsert_chunks no_store_processor ''proj_1'' notes_chunks
                (map length (map Chunk.content notes_chunks)) of
           Inl ex \<Rightarrow> (Inl ex, st)
         | Inr upserted \<Rightarrow>
             if upserted = 0
             then (let (r, st) = error_result ''doc_1'' ''Failed to store vectors in Qdrant'' st
                   in (Inr r, st))
             else
               (let st = update_status ''doc_1'' ''ready'' upserted None st
                in (Inr \<lparr>ProcessingResult.document_id = ''doc_1'',
                         status = ''ready'',
                         chunk_count = upserted,
                         error_message = None\<rparr>, st)))"
  proof (rule store_stage)
    show "lstrip_dots (lower (path_suffix no_store_processor ''notes.txt'')) \<in> ALLOWED_EXTENSIONS"
      unfolding no_store_suffix by (rule notes_allowed)
    show "vector_store_delete_document_chunks no_store_processor ''proj_1'' ''doc_1'' = Inr 0"
      by (simp add: no_store_processor_def demo_processor_def)
    show "parser_parse no_store_processor ''/tmp/notes.txt''
            (lstrip_dots (lower (path_suffix no_store_processor ''notes.txt''))) = Inr [short_section]"
      by (simp add: no_store_processor_def demo_processor_def)
    show "[short_section] \<noteq> []" by simp
    show "chunker_chunk_document no_store_processor [short_section] ''doc_1'' ''notes.txt''
            = Inr notes_chunks"
      by (simp add: no_store_processor_def demo_processor_def notes_chunks_def)
    show "notes_chunks \<noteq> []" by (rule notes_chunks_nonempty)
    show "embedder_embed_batch no_store_processor (map Chunk.content notes_chunks) 32
            = Inr (map length (map Chunk.content notes_chunks))"
      by (simp add: no_store_processor_def demo_processor_def)
    show "length (map length (map Chunk.content notes_chunks)) = length notes_chunks"
      by simp
  qed
  have zero: "vector_store_upsert_chunks no_store_processor ''proj_1'' notes_chunks
       (map length (map Chunk.content notes_chunks)) = Inr 0"
    by (simp add: no_store_processor_def)
  have r: "fst (process_document no_store_processor ''/tmp/notes.txt'' ''proj_1'' ''doc_1''
                ''notes.txt'' fresh_state)
         = Inr \<lparr>ProcessingResult.document_id = ''doc_1'', status = ''error'', chunk_count = 0,
                error_message = Some ''Failed to store vectors in Qdrant''\<rparr>"
    unfolding process_document_def body zero
    by (simp add: Let_def error_result_def)
  show ?thesis
    unfolding r using zero by simp
qed

theorem store_stage_outcome_witness:
  "lstrip_dots (lower (path_suffix demo_processor ''notes.txt'')) \<in> ALLOWED_EXTENSIONS
   \<and> notes_chunks \<noteq> []
   \<and> vector_store_upsert_chunks demo_processor ''proj_1'' notes_chunks
        (map length (map Chunk.content notes_chunks)) = Inr 1
   \<and> fst (process_document demo_processor ''/tmp/notes.txt'' ''proj_1'' ''doc_1'' ''notes.txt''
            fresh_state)
       = Inr \<lparr>ProcessingResult.document_id = ''doc_1'', status = ''ready'', chunk_count = 1,
              error_message = None\<rparr>
   \<and> processing_status
        (snd (process_document demo_processor ''/tmp/notes.txt'' ''proj_1'' ''doc_1''
                ''notes.txt'' fresh_state)) ''doc_1''
       = Some \<lparr>DocumentStatusResponse.document_id = ''doc_1'', status = ''ready'',
               chunk_count = 1, error_message = None\<rparr>"
proof -
  have one: "vector_store_upsert_chunks demo_processor ''proj_1'' notes_chunks
        (map length (map Chunk.content notes_chunks)) = Inr 1"
    by (simp add: demo_processor_def length_notes_chunks)
  have "fst (process_document demo_processor ''/tmp/notes.txt'' ''proj_1'' ''doc_1'' ''notes.txt''
            fresh_state) =
           Inr (if (1::int) = 0
                then \<lparr>ProcessingResult.document_id = ''doc_1'', status = ''error'',
                      chunk_count = 0,
                      error_message = Some ''Failed to store vectors in Qdrant''\<rparr>
                else \<lparr>ProcessingResult.document_id = ''doc_1'', status = ''ready'',
                      chunk_count = 1, error_message = None\<rparr>)
       \<and> processing_status (snd (process_document demo_processor ''/tmp/notes.txt'' ''proj_1''
            ''doc_1'' ''notes.txt'' fresh_state)) ''doc_1'' =
           Some (if (1::int) = 0
                 then \<lparr>DocumentStatusResponse.document_id = ''doc_1'', status = ''error'',
                       chunk_count = 0,
                       error_message = Some ''Failed to store vectors in Qdrant''\<rparr>
                 else \<lparr>DocumentStatusResponse.document_id = ''doc_1'', status = ''ready'',
                       chunk_count = 1, error_message = None\<rparr>)"
  proof (rule store_stage_outcome)
    show "lstrip_dots (lower (path_suffix demo_processor ''notes.txt'')) \<in> ALLOWED_EXTENSIONS"
      by (rule notes_allowed)
    show "vector_store_delete_document_chunks demo_processor ''proj_1'' ''doc_1'' = Inr 0"
      by (simp add: demo_processor_def)
    show "parser_parse demo_processor ''/tmp/notes.txt''
            (lstrip_dots (lower (path_suffix demo_processor ''notes.txt''))) = Inr [short_section]"
      by (simp add: demo_processor_def)
    show "[short_section] \<noteq> []" by simp
    show "chunker_chunk_document demo_processor [short_section] ''doc_1'' ''notes.txt''
            = Inr notes_chunks"
      by (simp add: demo_processor_def notes_chunks_def)
    show "notes_chunks \<noteq> []" by (rule notes_chunks_nonempty)
    show "embedder_embed_batch demo_processor (map Chunk.content notes_chunks) 32
            = Inr (map length (map Chunk.content notes_chunks))"
      by (simp add: demo_processor_def)
    show "length (map length (map Chunk.content notes_chunks)) = length notes_chunks"
      by simp
    show "vector_store_upsert_chunks demo_processor ''proj_1'' notes_chunks
        (map length (map Chunk.content notes_chunks)) = Inr 1"
      by (rule one)
  qed
  then show ?thesis
    using notes_allowed notes_chunks_nonempty one by simp
qed

section \<open>The processor: exceptions\<close>








section \<open>Sentences\<close>

text \<open>
  What masking one abbreviation does to the first text, in each of its four states, and to
  the second text: evaluated for every abbreviation of the list.
\<close>

lemma protect_doctors_FF:
  "list_all (\<lambda>a. protect_abbreviation a (doctors False False)
                    = doctors (a = ''Dr'') (a = ''Mr'')) ABBREVIATIONS"
  by code_simp

lemma protect_doctors_TF:
  "list_all (\<lambda>a. protect_abbreviation a (doctors True False)
                    = doctors True (a = ''Mr'')) ABBREVIATIONS"
  by code_simp

lemma protect_doctors_FT:
  "list_all (\<lambda>a. protect_abbreviation a (doctors False True)
                    = doctors (a = ''Dr'') True) ABBREVIATIONS"
  by code_simp

lemma protect_doctors_TT:
  "list_all (\<lambda>a. protect_abbreviation a (doctors True True) = doctors True True) ABBREVIATIONS"
  by code_simp

lemma protect_pi_text:
  "list_all (\<lambda>a. protect_abbreviation a pi_text = pi_text) ABBREVIATIONS"
  by code_simp

lemma split_doctors:
  "filter (\<lambda>s. s \<noteq> [])
     (map (\<lambda>s. strip (replace DOT ''.'' s))
        (re_split SENTENCE_SPLIT_PATTERN (protect_decimals (doctors True True))))
   = [''Dr. Smith went to the store.'', ''He met Mr. Jones there.'']"
  by code_simp

lemma split_pi_text:
  "protect_decimals pi_text = ''The value is 3<<<DOT>>>14159. This is pi.''
   \<and> re_split SENTENCE_SPLIT_PATTERN (protect_decimals pi_text)
       = [''The value is 3<<<DOT>>>14159.'', ''This is pi.'']
   \<and> filter (\<lambda>s. s \<noteq> [])
     (map (\<lambda>s. strip (replace DOT ''.'' s))
        (re_split SENTENCE_SPLIT_PATTERN (protect_decimals pi_text)))
     = [''The value is 3.14159.'', ''This is pi.'']"
  by code_simp

lemma split_doctors_masked:
  "re_split SENTENCE_SPLIT_PATTERN (protect_decimals (doctors True True))
   = [''Dr<<<DOT>>> Smith went to the store.'', ''He met Mr<<<DOT>>> Jones there.'']"
  by code_simp

lemma doctors_plain:
  "doctors False False = ''Dr. Smith went to the store. He met Mr. Jones there.''"
  by (simp add: doctors_def)

lemma doctors_masked:
  "doctors True True = ''Dr<<<DOT>>> Smith went to the store. He met Mr<<<DOT>>> Jones there.''"
  by (simp add: doctors_def)

lemma protect_doctors_step:
  assumes "a \<in> set ABBREVIATIONS"
  shows "protect_abbreviation a (doctors d m) = doctors (d \<or> a = ''Dr'') (m \<or> a = ''Mr'')"
proof (cases d; cases m)
  assume "d" "m"
  with assms protect_doctors_TT show ?thesis by (simp add: list_all_iff)
next
  assume "d" "\<not> m"
  with assms protect_doctors_TF show ?thesis by (simp add: list_all_iff)
next
  assume "\<not> d" "m"
  with assms protect_doctors_FT show ?thesis by (simp add: list_all_iff)
next
  assume "\<not> d" "\<not> m"
  with assms protect_doctors_FF show ?thesis by (simp add: list_all_iff)
qed

lemma protect_doctors:
  assumes "set names \<subseteq> set ABBREVIATIONS"
  shows "protect_abbreviations names (doctors d m)
           = doctors (d \<or> ''Dr'' \<in> set names) (m \<or> ''Mr'' \<in> set names)"
  using assms
proof (induction names arbitrary: d m)
  case Nil
  show ?case by (simp add: protect_abbreviations_def)
next
  case (Cons a names)
  have a: "a \<in> set ABBREVIATIONS" and rest: "set names \<subseteq> set ABBREVIATIONS"
    using Cons.prems by simp_all
  have "protect_abbreviations (a # names) (doctors d m)
          = protect_abbreviations names (protect_abbreviation a (doctors d m))"
    by (simp add: protect_abbreviations_def)
  also have "\<dots> = protect_abbreviations names (doctors (d \<or> a = ''Dr'') (m \<or> a = ''Mr''))"
    by (simp only: protect_doctors_step [OF a])
  also have "\<dots> = doctors ((d \<or> a = ''Dr'') \<or> ''Dr'' \<in> set names)
                         ((m \<or> a = ''Mr'') \<or> ''Mr'' \<in> set names)"
    by (rule Cons.IH [OF rest])
  also have "\<dots> = doctors (d \<or> ''Dr'' \<in> set (a # names)) (m \<or> ''Mr'' \<in> set (a # names))"
    by (rule arg_cong2 [where f = doctors]) auto
  finally show ?case .
qed

lemma protect_pi:
  assumes "set names \<subseteq> set ABBREVIATIONS"
  shows "protect_abbreviations names pi_text = pi_text"
  using assms
proof (induction names)
  case Nil
  show ?case by (simp add: protect_abbreviations_def)
next
  case (Cons a names)
  have "protect_abbreviation a pi_text = pi_text"
    using Cons.prems protect_pi_text by (simp add: list_all_iff)
  then have "protect_abbreviations (a # names) pi_text = protect_abbreviations names pi_text"
    by (simp add: protect_abbreviations_def)
  with Cons show ?case by simp
qed

lemma titles_listed: "''Dr'' \<in> set ABBREVIATIONS" "''Mr'' \<in> set ABBREVIATIONS"
  by (simp_all add: ABBREVIATIONS_def)

text \<open>
  C5. Whatever the order in which the loop visits the set of abbreviations: in the first
  text the dots after \<open>Dr\<close> and \<open>Mr\<close> are masked before the split, the masked text is split
  once, after \<open>store.\<close>, and unmasking gives the two sentences with \<open>Dr. Smith\<close> and
  \<open>Mr. Jones\<close> intact; in the second text the dot of \<open>3.14159\<close> is masked, the text is
  split once, after \<open>3<<<DOT>>>14159.\<close>, and the result is exactly two sentences.
\<close>

theorem sentence_splitting_examples:
  assumes "set abbrevs = set ABBREVIATIONS"
  shows "protect_abbreviations abbrevs ''Dr. Smith went to the store. He met Mr. Jones there.''
           = ''Dr<<<DOT>>> Smith went to the store. He met Mr<<<DOT>>> Jones there.''
       \<and> re_split SENTENCE_SPLIT_PATTERN
           (protect_decimals
              (protect_abbreviations abbrevs
                 ''Dr. Smith went to the store. He met Mr. Jones there.''))
           = [''Dr<<<DOT>>> Smith went to the store.'', ''He met Mr<<<DOT>>> Jones there.'']
       \<and> split_at_sentences_in abbrevs ''Dr. Smith went to the store. He met Mr. Jones there.''
           = [''Dr. Smith went to the store.'', ''He met Mr. Jones there.'']
       \<and> protect_decimals (protect_abbreviations abbrevs ''The value is 3.14159. This is pi.'')
           = ''The value is 3<<<DOT>>>14159. This is pi.''
       \<and> re_split SENTENCE_SPLIT_PATTERN
           (protect_decimals (protect_abbreviations abbrevs ''The value is 3.14159. This is pi.''))
           = [''The value is 3<<<DOT>>>14159.'', ''This is pi.'']
       \<and> split_at_sentences_in abbrevs ''The value is 3.14159. This is pi.''
           = [''The value is 3.14159.'', ''This is pi.'']"
proof -
  have sub: "set abbrevs \<subseteq> set ABBREVIATIONS"
    using assms by simp
  have "protect_abbreviations abbrevs (doctors False False) = doctors True True"
    using protect_doctors [OF sub, of False False] titles_listed assms by simp
  then have d: "protect_abbreviations abbrevs
                  ''Dr. Smith went to the store. He met Mr. Jones there.'' = doctors True True"
    by (simp only: doctors_plain)
  have p: "protect_abbreviations abbrevs ''The value is 3.14159. This is pi.'' = pi_text"
    using protect_pi [OF sub] by (simp add: pi_text_def)
  have 1: "protect_abbreviations abbrevs ''Dr. Smith went to the store. He met Mr. Jones there.''
           = ''Dr<<<DOT>>> Smith went to the store. He met Mr<<<DOT>>> Jones there.''"
    unfolding d by (rule doctors_masked)
  have 2: "re_split SENTENCE_SPLIT_PATTERN
           (protect_decimals
              (protect_abbreviations abbrevs
                 ''Dr. Smith went to the store. He met Mr. Jones there.''))
           = [''Dr<<<DOT>>> Smith went to the store.'', ''He met Mr<<<DOT>>> Jones there.'']"
    unfolding d by (rule split_doctors_masked)
  have 3: "split_at_sentences_in abbrevs ''Dr. Smith went to the store. He met Mr. Jones there.''
           = [''Dr. Smith went to the store.'', ''He met Mr. Jones there.'']"
    unfolding split_at_sentences_in_def Let_def d by (rule split_doctors)
  have 4: "protect_decimals (protect_abbreviations abbrevs ''The value is 3.14159. This is pi.'')
           = ''The value is 3<<<DOT>>>14159. This is pi.''"
    unfolding p using split_pi_text by (rule conjunct1)
  have 5: "re_split SENTENCE_SPLIT_PATTERN
           (protect_decimals (protect_abbreviations abbrevs ''The value is 3.14159. This is pi.''))
           = [''The value is 3<<<DOT>>>14159.'', ''This is pi.'']"
    unfolding p using split_pi_text by (rule conjunct1 [OF conjunct2])
  have 6: "split_at_sentences_in abbrevs ''The value is 3.14159. This is pi.''
           = [''The value is 3.14159.'', ''This is pi.'']"
    unfolding split_at_sentences_in_def Let_def p using split_pi_text
    by (rule conjunct2 [OF conjunct2])
  from 1 2 3 4 5 6 show ?thesis by (intro conjI)
qed

text \<open>The theorem at the order in which the source lists the abbreviations.\<close>

theorem sentence_splitting_examples_witness:
  "set ABBREVIATIONS = set ABBREVIATIONS
   \<and> split_at_sentences ''Dr. Smith went to the store. He met Mr. Jones there.''
       = [''Dr. Smith went to the store.'', ''He met Mr. Jones there.'']
   \<and> split_at_sentences ''The value is 3.14159. This is pi.''
       = [''The value is 3.14159.'', ''This is pi.'']"
  using sentence_splitting_examples [of ABBREVIATIONS]
  by (simp add: split_at_sentences_def)

end
